theory Spec2Isabelle
  imports Main "HOL-Library.Sublist" "HOL-Library.AList"
begin

text \<open>
  A model of the DNS lookup page \<^verbatim>\<open>src/App.svelte\<close>: the CAA decoder \<^verbatim>\<open>parseCAA\<close>, the
  DoH query \<^verbatim>\<open>queryDNS\<close> and the lookup \<^verbatim>\<open>handleLookup\<close>, with the properties that
  the specification states about them. The definitions come first, in the order of the
  source; the properties follow.
\<close>

section \<open>JavaScript strings and numbers\<close>

text \<open>
  A JavaScript string is modelled as an Isabelle \<open>string\<close>: a list of code units in the
  range 0..255 (the Latin-1 part of UTF-16). The text returned by the DoH JSON transports and
  the output of \<^verbatim>\<open>String.fromCharCode\<close> on a two-digit hex number stay in that range.
  The character classes below are the ECMAScript ones cut down to that range.
\<close>

definition code :: "char \<Rightarrow> nat" where
  "code c = of_char c"

definition backslash :: char where
  "backslash = CHR 0x5C"

text \<open>\<^verbatim>\<open>\s\<close> and the characters removed by \<^verbatim>\<open>trim\<close>: TAB, LF, VT, FF, CR, SP, NBSP.\<close>

definition isWhiteSpace :: "char \<Rightarrow> bool" where
  "isWhiteSpace c \<longleftrightarrow> code c \<in> {9, 10, 11, 12, 13, 32, 160}"

text \<open>The characters the regular expression \<^verbatim>\<open>.\<close> does not match.\<close>

definition isLineTerminator :: "char \<Rightarrow> bool" where
  "isLineTerminator c \<longleftrightarrow> code c \<in> {10, 13}"

text \<open>\<^verbatim>\<open>\d\<close>\<close>

definition isDigit :: "char \<Rightarrow> bool" where
  "isDigit c \<longleftrightarrow> 48 \<le> code c \<and> code c \<le> 57"

text \<open>\<^verbatim>\<open>[\da-fA-F]\<close>\<close>

definition isHexDigit :: "char \<Rightarrow> bool" where
  "isHexDigit c \<longleftrightarrow> isDigit c \<or> (97 \<le> code c \<and> code c \<le> 102) \<or> (65 \<le> code c \<and> code c \<le> 70)"

text \<open>\<^verbatim>\<open>[\da-fA-F\s]\<close>\<close>

definition isHexOrSpace :: "char \<Rightarrow> bool" where
  "isHexOrSpace c \<longleftrightarrow> isHexDigit c \<or> isWhiteSpace c"

text \<open>
  A JavaScript number, as far as this program computes with them: a natural number, or
  \<open>None\<close> for NaN.
\<close>

type_synonym number = "nat option"

definition hexValue :: "char \<Rightarrow> nat" where
  "hexValue c = (if isDigit c then code c - 48
                 else if 97 \<le> code c then code c - 87
                 else code c - 55)"

text \<open>
  \<^verbatim>\<open>parseInt(s, 16)\<close>: the value of the longest prefix of hex digits, NaN when there is
  none. (The white space, sign and \<^verbatim>\<open>0x\<close> prefix that \<^verbatim>\<open>parseInt\<close> also accepts
  cannot occur: every argument here is cut from a string of hex digits, see
  \<open>hexBytes_hex\<close> below.)
\<close>

definition parseInt16 :: "string \<Rightarrow> number" where
  "parseInt16 s =
     (let ds = takeWhile isHexDigit s
      in if ds = [] then None else Some (foldl (\<lambda>a c. 16 * a + hexValue c) 0 ds))"

text \<open>\<^verbatim>\<open>String.fromCharCode(n)\<close>; NaN is converted to code unit 0.\<close>

definition fromCharCode :: "number \<Rightarrow> string" where
  "fromCharCode n = (case n of None \<Rightarrow> [char_of (0::nat)] | Some k \<Rightarrow> [char_of k])"

text \<open>
  \<^verbatim>\<open>s.substr(start, length)\<close> and \<^verbatim>\<open>s.substr(start)\<close>; a NaN argument counts as 0.
\<close>

definition toInteger :: "number \<Rightarrow> nat" where
  "toInteger n = (case n of None \<Rightarrow> 0 | Some k \<Rightarrow> k)"

definition substr :: "string \<Rightarrow> number \<Rightarrow> number \<Rightarrow> string" where
  "substr s start len = take (toInteger len) (drop (toInteger start) s)"

definition substr_from :: "string \<Rightarrow> number \<Rightarrow> string" where
  "substr_from s start = drop (toInteger start) s"

definition num_times :: "number \<Rightarrow> number \<Rightarrow> number" where
  "num_times a b = (case (a, b) of (Some x, Some y) \<Rightarrow> Some (x * y) | _ \<Rightarrow> None)"

definition num_plus :: "number \<Rightarrow> number \<Rightarrow> number" where
  "num_plus a b = (case (a, b) of (Some x, Some y) \<Rightarrow> Some (x + y) | _ \<Rightarrow> None)"

text \<open>The decimal digits of a natural number, as a template literal prints it.\<close>

fun decimal :: "nat \<Rightarrow> string" where
  "decimal n = (if n < 10 then [char_of (48 + n)]
                else decimal (n div 10) @ [char_of (48 + n mod 10)])"

definition numberToString :: "number \<Rightarrow> string" where
  "numberToString n = (case n of None \<Rightarrow> ''NaN'' | Some k \<Rightarrow> decimal k)"

text \<open>\<^verbatim>\<open>s.trim()\<close>\<close>

definition trim :: "string \<Rightarrow> string" where
  "trim s = rev (dropWhile isWhiteSpace (rev (dropWhile isWhiteSpace s)))"

text \<open>
  \<^verbatim>\<open>s.toLowerCase()\<close> on code units 0..255: A-Z and the capital letters of
  U+00C0..U+00DE (all but the multiplication sign U+00D7) move up by 32.
\<close>

definition lowerChar :: "char \<Rightarrow> char" where
  "lowerChar c =
     (if (65 \<le> code c \<and> code c \<le> 90) \<or> (192 \<le> code c \<and> code c \<le> 222 \<and> code c \<noteq> 215)
      then char_of (code c + 32) else c)"

definition toLowerCase :: "string \<Rightarrow> string" where
  "toLowerCase s = map lowerChar s"

text \<open>\<^verbatim>\<open>s.includes(sub)\<close>: \<open>sub\<close> occurs in \<open>s\<close> as a contiguous piece.\<close>

fun js_includes :: "string \<Rightarrow> string \<Rightarrow> bool" where
  "js_includes [] sub = (sub = [])"
| "js_includes (c # s) sub = (prefix sub (c # s) \<or> js_includes s sub)"

section \<open>The CAA decoder: \<^verbatim>\<open>parseCAA\<close>\<close>

subsection \<open>The regular expressions\<close>

text \<open>
  A backtracking matcher in continuation style. \<open>lit c k\<close> matches the character \<open>c\<close> and
  goes on with \<open>k\<close> on the rest. \<open>plus_greedy p k acc s\<close> is the greedy quantifier
  \<^verbatim>\<open>+\<close> on a character class \<open>p\<close>: it takes as many characters as it can, then tries the
  continuation \<open>k\<close> (which receives the text taken and the rest), and gives characters back
  one at a time while the continuation fails.
\<close>

definition lit :: "char \<Rightarrow> (string \<Rightarrow> 'a option) \<Rightarrow> string \<Rightarrow> 'a option" where
  "lit c k s = (case s of [] \<Rightarrow> None | x # r \<Rightarrow> if x = c then k r else None)"

fun plus_greedy ::
  "(char \<Rightarrow> bool) \<Rightarrow> (string \<Rightarrow> string \<Rightarrow> 'a option) \<Rightarrow> string \<Rightarrow> string \<Rightarrow> 'a option" where
  "plus_greedy p k acc [] = None"
| "plus_greedy p k acc (c # s) =
     (if p c
      then (case plus_greedy p k (acc @ [c]) s of
              Some r \<Rightarrow> Some r
            | None \<Rightarrow> k (acc @ [c]) s)
      else None)"

text \<open>
  \<^verbatim>\<open>/\\#\s+\d+\s+([\da-fA-F\s]+)/\<close> tried at the start of \<open>s\<close>; the result is the text of
  group 1.
\<close>

definition caa_regex_at :: "string \<Rightarrow> string option" where
  "caa_regex_at s =
     lit backslash (lit CHR ''#''
       (plus_greedy isWhiteSpace (\<lambda>_.
          plus_greedy isDigit (\<lambda>_.
            plus_greedy isWhiteSpace (\<lambda>_.
              plus_greedy isHexOrSpace (\<lambda>g _. Some g) []) []) []) [])) s"

text \<open>
  \<^verbatim>\<open>hexData.match(re)\<close> for a regular expression without the \<^verbatim>\<open>g\<close> flag: the match at
  the leftmost position where there is one, \<open>None\<close> for \<^verbatim>\<open>null\<close>.
\<close>

fun caa_regex_match :: "string \<Rightarrow> string option" where
  "caa_regex_match [] = caa_regex_at []"
| "caa_regex_match (c # s) =
     (case caa_regex_at (c # s) of
        Some g \<Rightarrow> Some g
      | None \<Rightarrow> caa_regex_match s)"

text \<open>\<^verbatim>\<open>s.replace(/\s+/g, '')\<close>\<close>

definition remove_whitespace :: "string \<Rightarrow> string" where
  "remove_whitespace s = filter (\<lambda>c. \<not> isWhiteSpace c) s"

text \<open>
  \<^verbatim>\<open>s.match(/.{2}/g)\<close>: all successive pairs of characters other than line terminators,
  scanning from the left; \<^verbatim>\<open>null\<close> (\<open>None\<close>) when there is no such pair.
\<close>

fun pairs :: "string \<Rightarrow> string list" where
  "pairs (a # b # s) =
     (if isLineTerminator a \<or> isLineTerminator b then pairs (b # s) else [a, b] # pairs s)"
| "pairs s = []"

definition match_pairs :: "string \<Rightarrow> string list option" where
  "match_pairs s = (let ms = pairs s in if ms = [] then None else Some ms)"

subsection \<open>The function\<close>

datatype js_error = TypeError | HttpError nat | NetworkError | SyntaxError

text \<open>
  The body of the \<^verbatim>\<open>try\<close> block. \<^verbatim>\<open>.map\<close> called on \<^verbatim>\<open>null\<close> throws a TypeError;
  nothing else in the block can throw.
\<close>

definition decodeBytes :: "string list \<Rightarrow> string" where
  "decodeBytes ps = concat (map (\<lambda>byte. fromCharCode (parseInt16 byte)) ps)"

definition parseCAA_try :: "string \<Rightarrow> js_error + string" where
  \<open>parseCAA_try hexBytes =
     (let flags = parseInt16 (substr hexBytes (Some 0) (Some 2));
          tagLength = parseInt16 (substr hexBytes (Some 2) (Some 2));
          tagHex = substr hexBytes (Some 4) (num_times tagLength (Some 2))
      in case match_pairs tagHex of
           None \<Rightarrow> Inl TypeError
         | Some tagPairs \<Rightarrow>
             (let tag = decodeBytes tagPairs;
                  valueHex = substr_from hexBytes (num_plus (Some 4) (num_times tagLength (Some 2)))
              in case match_pairs valueHex of
                   None \<Rightarrow> Inl TypeError
                 | Some valuePairs \<Rightarrow>
                     (let value = decodeBytes valuePairs
                      in Inr (numberToString flags @ '' '' @ tag @ '' "'' @ value @ ''"''))))\<close>

definition parseCAA :: "string \<Rightarrow> string" where
  "parseCAA hexData =
     (case caa_regex_match hexData of
        None \<Rightarrow> hexData
      | Some group1 \<Rightarrow>
          (let hexBytes = remove_whitespace group1
           in case parseCAA_try hexBytes of
                Inr s \<Rightarrow> s
              | Inl err \<Rightarrow> hexData))"

text \<open>
  The \<^verbatim>\<open>console.error\<close> call of the \<^verbatim>\<open>catch\<close> block writes a diagnostic and does not
  change what \<open>parseCAA\<close> returns; it is left out of the model.
\<close>

section \<open>The lookup: \<^verbatim>\<open>queryDNS\<close> and \<^verbatim>\<open>handleLookup\<close>\<close>

subsection \<open>Data\<close>

text \<open>An entry of the \<^verbatim>\<open>Answer\<close> array of a DoH JSON response.\<close>

record ResourceRecord =
  rr_name :: string
  rr_type :: nat
  TTL :: nat
  data :: string

text \<open>
  The parsed JSON body of a response, as the DoH JSON format defines it: an object whose
  \<^verbatim>\<open>Answer\<close> array is optional. Bodies of another shape are outside the model.
\<close>

record dns_json =
  Answer :: "ResourceRecord list option"

text \<open>An entry of \<^verbatim>\<open>RECORD_TYPES.emailSecurity\<close>.\<close>

record probe =
  type :: string
  name :: string
  label :: string

definition RECORD_TYPES_usual :: "string list" where
  "RECORD_TYPES_usual = [''SOA'', ''A'', ''AAAA'', ''TXT'', ''MX'', ''NS'', ''CAA'']"

definition RECORD_TYPES_emailSecurity :: "probe list" where
  "RECORD_TYPES_emailSecurity =
     [\<lparr>type = ''TXT'', name = ''_dmarc'', label = ''_dmarc (TXT)''\<rparr>,
      \<lparr>type = ''A'', name = ''mta-sts'', label = ''mta-sts (A)''\<rparr>,
      \<lparr>type = ''AAAA'', name = ''mta-sts'', label = ''mta-sts (AAAA)''\<rparr>,
      \<lparr>type = ''TXT'', name = ''_mta-sts'', label = ''_mta-sts (TXT)''\<rparr>,
      \<lparr>type = ''TXT'', name = ''_smtp._tls'', label = ''_smtp._tls (TXT)''\<rparr>,
      \<lparr>type = ''TXT'', name = ''google._domainkey'', label = ''google._domainkey (TXT)''\<rparr>]"

text \<open>
  \<^verbatim>\<open>PROVIDERS[provider]\<close>. For an id other than the two keys the lookup gives
  \<^verbatim>\<open>undefined\<close> (or, for a name inherited from \<^verbatim>\<open>Object.prototype\<close>, a value that is
  no URL either): \<open>None\<close>.
\<close>

definition PROVIDERS :: "string \<Rightarrow> string option" where
  "PROVIDERS p =
     (if p = ''google'' then Some ''https://dns.google/resolve''
      else if p = ''cloudflare'' then Some ''https://cloudflare-dns.com/dns-query''
      else None)"

text \<open>
  The network. A request is the URL that \<^verbatim>\<open>queryDNS\<close> builds: the endpoint and the two
  search parameters. \<^verbatim>\<open>fetch\<close> either rejects (\<open>Rejected\<close>) or yields a response with an
  HTTP status and a body, which \<^verbatim>\<open>response.json()\<close> parses (\<open>None\<close>: the body is not
  JSON). The thirteen requests of one lookup are pairwise different, so a function from
  requests to outcomes covers every way the network can behave during a lookup.
\<close>

record request =
  endpoint :: string
  qname :: string
  qtype :: string

datatype fetch_result = Rejected | Response nat "dns_json option"

type_synonym transport = "request \<Rightarrow> fetch_result"

text \<open>A JavaScript object used as a dictionary: keys in insertion order.\<close>

type_synonym 'a object = "(string \<times> 'a) list"

text \<open>\<^verbatim>\<open>obj[k] = v\<close>: replaces the value of an existing key, appends a new key.\<close>

definition assign :: "string \<Rightarrow> 'a \<Rightarrow> 'a object \<Rightarrow> 'a object" where
  "assign k v obj = AList.update k v obj"

record lookup_result =
  res_domain :: string
  res_provider :: string
  usual :: "ResourceRecord list object"
  emailSecurity :: "ResourceRecord list object"

text \<open>
  The component's variables, and what it has done to the outside: the network requests
  issued, the \<^verbatim>\<open>console.error\<close> diagnostics, the entries pushed on the browser history.
\<close>

record app =
  domain :: string
  provider :: string
  loading :: bool
  error :: string
  results :: "lookup_result option"
  requests :: "request list"
  console :: "(string \<times> js_error) list"
  history :: "(string \<times> string) list"

definition initial :: app where
  "initial = \<lparr>domain = [], provider = ''google'', loading = False, error = [],
               results = None, requests = [], console = [], history = []\<rparr>"

text \<open>The variables of one run of the \<^verbatim>\<open>try\<close> block of \<^verbatim>\<open>handleLookup\<close>.\<close>

record run =
  usualResults :: "ResourceRecord list object"
  emailSecurityResults :: "ResourceRecord list object"
  sent :: "request list"
  diagnostics :: "(string \<times> js_error) list"

subsection \<open>\<^verbatim>\<open>queryDNS\<close>\<close>

text \<open>
  \<^verbatim>\<open>new URL(providerUrl)\<close> throws a TypeError when \<open>providerUrl\<close> is no URL, before any
  request is made. The result is the JSON body or the error thrown, with the requests
  issued so far.
\<close>

definition queryDNS ::
  "transport \<Rightarrow> string \<Rightarrow> string \<Rightarrow> string option \<Rightarrow> request list
     \<Rightarrow> (js_error + dns_json) \<times> request list" where
  "queryDNS fetch recordDomain recordType providerUrl reqs =
     (case providerUrl of
        None \<Rightarrow> (Inl TypeError, reqs)
      | Some u \<Rightarrow>
          (let url = \<lparr>endpoint = u, qname = recordDomain, qtype = recordType\<rparr>;
               reqs' = reqs @ [url]
           in case fetch url of
                Rejected \<Rightarrow> (Inl NetworkError, reqs')
              | Response status body \<Rightarrow>
                  if \<not> (200 \<le> status \<and> status \<le> 299) then (Inl (HttpError status), reqs')
                  else (case body of
                          None \<Rightarrow> (Inl SyntaxError, reqs')
                        | Some json \<Rightarrow> (Inr json, reqs'))))"

subsection \<open>\<^verbatim>\<open>handleLookup\<close>\<close>

text \<open>\<^verbatim>\<open>s.replace(/^https?:\/\//, '')\<close>\<close>

definition strip_scheme :: "string \<Rightarrow> string" where
  "strip_scheme s =
     (if prefix ''http://'' s then drop 7 s
      else if prefix ''https://'' s then drop 8 s
      else s)"

text \<open>\<^verbatim>\<open>s.replace(/\/$/, '')\<close>\<close>

definition strip_slash :: "string \<Rightarrow> string" where
  "strip_slash s = (if s \<noteq> [] \<and> last s = CHR ''/'' then butlast s else s)"

definition cleanDomain :: "string \<Rightarrow> string" where
  "cleanDomain d = strip_slash (strip_scheme (toLowerCase (trim d)))"

text \<open>The body of the first loop, with its \<^verbatim>\<open>try\<close>/\<^verbatim>\<open>catch\<close>.\<close>

definition query_usual ::
  "transport \<Rightarrow> string \<Rightarrow> string \<Rightarrow> string option \<Rightarrow> string \<Rightarrow> run \<Rightarrow> run" where
  "query_usual fetch prov clean providerUrl ty r =
     (case queryDNS fetch clean ty providerUrl (sent r) of
        (Inl err, reqs) \<Rightarrow>
          r\<lparr>sent := reqs,
            diagnostics := diagnostics r @ [(''Error querying '' @ ty @ '':'', err)]\<rparr>
      | (Inr result, reqs) \<Rightarrow>
          (case Answer result of
             None \<Rightarrow> r\<lparr>sent := reqs\<rparr>
           | Some answer \<Rightarrow>
               if length answer > 0
               then (let answer' =
                           (if ty = ''CAA'' \<and> prov = ''cloudflare''
                            then map (\<lambda>record. record\<lparr>data := parseCAA (data record)\<rparr>) answer
                            else answer)
                     in r\<lparr>sent := reqs, usualResults := assign ty answer' (usualResults r)\<rparr>)
               else r\<lparr>sent := reqs\<rparr>))"

text \<open>The SPF records among the TXT records of the domain.\<close>

definition extract_spf :: "run \<Rightarrow> run" where
  "extract_spf r =
     (case map_of (usualResults r) ''TXT'' of
        None \<Rightarrow> r
      | Some txt \<Rightarrow>
          (let spfRecords =
                 filter (\<lambda>record. data record \<noteq> [] \<and>
                                   js_includes (toLowerCase (data record)) ''v=spf1'') txt
           in if length spfRecords > 0
              then r\<lparr>emailSecurityResults :=
                       assign ''SPF (TXT)'' spfRecords (emailSecurityResults r)\<rparr>
              else r))"

text \<open>The body of the second loop.\<close>

definition query_emailSecurity ::
  "transport \<Rightarrow> string \<Rightarrow> string option \<Rightarrow> probe \<Rightarrow> run \<Rightarrow> run" where
  "query_emailSecurity fetch clean providerUrl record r =
     (let queryDomain = name record @ ''.'' @ clean
      in case queryDNS fetch queryDomain (type record) providerUrl (sent r) of
           (Inl err, reqs) \<Rightarrow>
             r\<lparr>sent := reqs,
               diagnostics := diagnostics r @ [(''Error querying '' @ label record @ '':'', err)]\<rparr>
         | (Inr result, reqs) \<Rightarrow>
             (case Answer result of
                None \<Rightarrow> r\<lparr>sent := reqs\<rparr>
              | Some answer \<Rightarrow>
                  if length answer > 0
                  then r\<lparr>sent := reqs,
                         emailSecurityResults :=
                           assign (label record) answer (emailSecurityResults r)\<rparr>
                  else r\<lparr>sent := reqs\<rparr>))"

text \<open>
  \<^verbatim>\<open>handleLookup\<close> reads \<open>domain\<close> and \<open>provider\<close> and writes \<open>error\<close>, \<open>loading\<close> and
  \<open>results\<close>. The statements of the outer \<^verbatim>\<open>try\<close> block that can throw are inside the
  two loops' own \<^verbatim>\<open>try\<close> blocks; \<^verbatim>\<open>history.pushState\<close>, the last statement, belongs
  to the browser and is taken to succeed. So the outer \<^verbatim>\<open>catch\<close> is never entered;
  \<^verbatim>\<open>finally\<close> resets \<open>loading\<close>.
\<close>

definition handleLookup :: "transport \<Rightarrow> app \<Rightarrow> app" where
  "handleLookup fetch s =
     (if trim (domain s) = [] then s\<lparr>error := ''Please enter a domain name''\<rparr>
      else
        (let clean = cleanDomain (domain s);
             s1 = s\<lparr>loading := True, error := [], results := None\<rparr>;
             providerUrl = PROVIDERS (provider s1);
             r0 = \<lparr>usualResults = [], emailSecurityResults = [],
                   sent = requests s1, diagnostics = console s1\<rparr>;
             r1 = fold (query_usual fetch (provider s1) clean providerUrl) RECORD_TYPES_usual r0;
             r2 = extract_spf r1;
             r3 = fold (query_emailSecurity fetch clean providerUrl) RECORD_TYPES_emailSecurity r2;
             s2 = s1\<lparr>results := Some
                       \<lparr>res_domain = clean,
                        res_provider = (if provider s1 = ''google'' then ''dns.google'' else ''1.1.1.1''),
                        usual = usualResults r3,
                        emailSecurity = emailSecurityResults r3\<rparr>,
                     requests := sent r3,
                     console := diagnostics r3,
                     history := history s1 @ [(clean, provider s1)]\<rparr>
         in s2\<lparr>loading := False\<rparr>))"

section \<open>Specification vocabulary\<close>

text \<open>
  The generic-record pattern in words: a backslash and a hash sign, white space, decimal
  digits, white space, and then hex digits and white space. \<open>generic_record_at s\<close> says
  that \<open>s\<close> starts with such a text, \<open>contains_generic_record s\<close> that one occurs
  somewhere in \<open>s\<close>.
\<close>

definition generic_record_at :: "string \<Rightarrow> bool" where
  "generic_record_at s \<longleftrightarrow>
     (\<exists>ws1 ds ws2 g post.
        s = [backslash, CHR ''#''] @ ws1 @ ds @ ws2 @ g @ post \<and>
        ws1 \<noteq> [] \<and> list_all isWhiteSpace ws1 \<and>
        ds \<noteq> [] \<and> list_all isDigit ds \<and>
        ws2 \<noteq> [] \<and> list_all isWhiteSpace ws2 \<and>
        g \<noteq> [] \<and> list_all isHexOrSpace g)"

definition contains_generic_record :: "string \<Rightarrow> bool" where
  "contains_generic_record s \<longleftrightarrow> (\<exists>pre t. s = pre @ t \<and> generic_record_at t)"

text \<open>The hex dump of a sequence of bytes: two lower-case hex digits for each byte.\<close>

definition hexDigitChar :: "nat \<Rightarrow> char" where
  "hexDigitChar i = char_of (if i < 10 then 48 + i else 87 + i)"

definition hexByte :: "nat \<Rightarrow> string" where
  "hexByte b = [hexDigitChar (b div 16), hexDigitChar (b mod 16)]"

definition hexDump :: "nat list \<Rightarrow> string" where
  "hexDump bs = concat (map hexByte bs)"

text \<open>
  The wire form of a CAA record: the flags byte, the length of the tag, the bytes of the
  tag, the bytes of the value.
\<close>

definition caa_wire :: "nat \<Rightarrow> string \<Rightarrow> string \<Rightarrow> nat list" where
  "caa_wire flags tag val = flags # length tag # map code tag @ map code val"

text \<open>Inputs of \<open>parseCAA\<close> used below.\<close>

definition caa_testca :: string where
  "caa_testca = backslash # ''# 17 00 05 69 73 73 75 65 74 65 73 74 63 61 2e 63 6f 6d''"

definition caa_quoted :: string where
  \<open>caa_quoted = backslash # ''# 19 0005697373756574657374"ca.com"''\<close>

definition caa_empty_value :: string where
  "caa_empty_value = backslash # ''# 7 00 05 69 73 73 75 65''"

definition caa_empty_tag :: string where
  "caa_empty_tag = backslash # ''# 3 80 00 78''"

definition caa_one_byte_tag_only :: string where
  "caa_one_byte_tag_only = backslash # ''# 3 00 01 69''"

definition caa_odd_hex :: string where
  "caa_odd_hex = backslash # ''# 4 000169746''"

definition caa_lenient :: string where
  "caa_lenient = backslash # ''# 99 00 01 69 74 6zz''"

definition caa_tag_past_end :: string where
  "caa_tag_past_end = backslash # ''# 99 00ff69 6zz''"

definition caa_readable :: string where
  \<open>caa_readable = ''0 issue "letsencrypt.org"''\<close>

section \<open>Specification vocabulary for the lookup\<close>

text \<open>
  What one query yields, whatever has been requested before: the JSON body or the error;
  whether it fails; and the records obtained (none when it fails or when the body has no
  \<^verbatim>\<open>Answer\<close>).
\<close>

definition query_result ::
  "transport \<Rightarrow> string option \<Rightarrow> string \<Rightarrow> string \<Rightarrow> js_error + dns_json" where
  "query_result fetch providerUrl recordDomain recordType =
     fst (queryDNS fetch recordDomain recordType providerUrl [])"

definition query_fails :: "transport \<Rightarrow> string option \<Rightarrow> string \<Rightarrow> string \<Rightarrow> bool" where
  "query_fails fetch providerUrl recordDomain recordType \<longleftrightarrow>
     isl (query_result fetch providerUrl recordDomain recordType)"

definition obtained ::
  "transport \<Rightarrow> string option \<Rightarrow> string \<Rightarrow> string \<Rightarrow> ResourceRecord list" where
  "obtained fetch providerUrl recordDomain recordType =
     (case query_result fetch providerUrl recordDomain recordType of
        Inl err \<Rightarrow> []
      | Inr json \<Rightarrow> (case Answer json of None \<Rightarrow> [] | Some answer \<Rightarrow> answer))"

text \<open>The requests that one query issues: one, or none when there is no endpoint.\<close>

definition issued :: "string option \<Rightarrow> string \<Rightarrow> string \<Rightarrow> request list" where
  "issued providerUrl recordDomain recordType =
     (case providerUrl of
        None \<Rightarrow> []
      | Some u \<Rightarrow> [\<lparr>endpoint = u, qname = recordDomain, qtype = recordType\<rparr>])"

text \<open>The records as they are stored: CAA data from Cloudflare goes through the decoder.\<close>

definition as_stored :: "string \<Rightarrow> string \<Rightarrow> ResourceRecord list \<Rightarrow> ResourceRecord list" where
  "as_stored prov ty answer =
     (if ty = ''CAA'' \<and> prov = ''cloudflare''
      then map (\<lambda>record. record\<lparr>data := parseCAA (data record)\<rparr>) answer
      else answer)"

text \<open>
  The entries a lookup is expected to hold: for every record type, in the order of the
  configuration, for which at least one record was obtained, the records obtained; the
  same for the email-security probes, under their labels.
\<close>

definition usual_entries ::
  "transport \<Rightarrow> string \<Rightarrow> string \<Rightarrow> ResourceRecord list object" where
  "usual_entries fetch prov clean =
     map (\<lambda>ty. (ty, as_stored prov ty (obtained fetch (PROVIDERS prov) clean ty)))
       (filter (\<lambda>ty. obtained fetch (PROVIDERS prov) clean ty \<noteq> []) RECORD_TYPES_usual)"

definition probe_entries ::
  "transport \<Rightarrow> string \<Rightarrow> string \<Rightarrow> ResourceRecord list object" where
  "probe_entries fetch prov clean =
     map (\<lambda>record. (label record,
                      obtained fetch (PROVIDERS prov) (name record @ ''.'' @ clean) (type record)))
       (filter (\<lambda>record.
                  obtained fetch (PROVIDERS prov) (name record @ ''.'' @ clean) (type record) \<noteq> [])
          RECORD_TYPES_emailSecurity)"

text \<open>The text contains \<^verbatim>\<open>v=spf1\<close>, in whatever case.\<close>

definition mentions_spf1 :: "string \<Rightarrow> bool" where
  "mentions_spf1 d \<longleftrightarrow> (\<exists>pre post. toLowerCase d = pre @ ''v=spf1'' @ post)"

definition spf_entries :: "ResourceRecord list object \<Rightarrow> ResourceRecord list object" where
  "spf_entries obj =
     (case map_of obj ''TXT'' of
        None \<Rightarrow> []
      | Some txt \<Rightarrow>
          (if filter (\<lambda>record. mentions_spf1 (data record)) txt = [] then []
           else [(''SPF (TXT)'', filter (\<lambda>record. mentions_spf1 (data record)) txt)]))"

text \<open>
  \<^verbatim>\<open>d.toUpperCase()\<close>, which the specification's invariance property applies to a domain,
  on code units 0..255: a-z and the small letters of U+00E0..U+00FE (all but the division
  sign U+00F7) move down by 32, and the sharp s U+00DF becomes \<open>SS\<close>. The upper-case forms
  of the micro sign U+00B5 and of y with diaeresis U+00FF are U+039C and U+0178, which are
  no code units of this model: \<open>None\<close>.
\<close>

definition sharp_s :: char where
  "sharp_s = CHR 0xDF"

definition upperChar :: "char \<Rightarrow> string option" where
  "upperChar c =
     (if code c = 181 \<or> code c = 255 then None
      else if c = sharp_s then Some ''SS''
      else if (97 \<le> code c \<and> code c \<le> 122) \<or> (224 \<le> code c \<and> code c \<le> 254 \<and> code c \<noteq> 247)
      then Some [char_of (code c - 32)]
      else Some [c])"

fun toUpperCase :: "string \<Rightarrow> string option" where
  "toUpperCase [] = Some []"
| "toUpperCase (c # s) =
     (case upperChar c of
        None \<Rightarrow> None
      | Some u \<Rightarrow> (case toUpperCase s of None \<Rightarrow> None | Some t \<Rightarrow> Some (u @ t)))"

text \<open>
  The argument of the invariance property, \<^verbatim>\<open>"  " + d.toUpperCase() + "/ "\<close>, for the
  upper-cased domain \<open>u\<close>.
\<close>

definition padded :: "string \<Rightarrow> string" where
  "padded u = ''  '' @ u @ ''/ ''"

text \<open>The requests and the diagnostics of a whole lookup, in order.\<close>

definition lookup_requests :: "string \<Rightarrow> string \<Rightarrow> request list" where
  "lookup_requests prov clean =
     concat (map (issued (PROVIDERS prov) clean) RECORD_TYPES_usual) @
     concat (map (\<lambda>record. issued (PROVIDERS prov) (name record @ ''.'' @ clean) (type record))
               RECORD_TYPES_emailSecurity)"

definition lookup_diagnostics :: "transport \<Rightarrow> string \<Rightarrow> string \<Rightarrow> (string \<times> js_error) list" where
  "lookup_diagnostics fetch prov clean =
     concat (map (\<lambda>ty. case query_result fetch (PROVIDERS prov) clean ty of
                          Inl err \<Rightarrow> [(''Error querying '' @ ty @ '':'', err)]
                        | Inr json \<Rightarrow> []) RECORD_TYPES_usual) @
     concat (map (\<lambda>record.
                    case query_result fetch (PROVIDERS prov) (name record @ ''.'' @ clean)
                           (type record) of
                      Inl err \<Rightarrow> [(''Error querying '' @ label record @ '':'', err)]
                    | Inr json \<Rightarrow> []) RECORD_TYPES_emailSecurity)"

text \<open>The result that a lookup is expected to store.\<close>

definition expected_result :: "transport \<Rightarrow> string \<Rightarrow> string \<Rightarrow> lookup_result" where
  "expected_result fetch prov clean =
     \<lparr>res_domain = clean,
      res_provider = (if prov = ''google'' then ''dns.google'' else ''1.1.1.1''),
      usual = usual_entries fetch prov clean,
      emailSecurity = spf_entries (usual_entries fetch prov clean) @ probe_entries fetch prov clean\<rparr>"

text \<open>Networks and states used below.\<close>

definition all_rejected :: transport where
  "all_rejected url = Rejected"

definition txt_fetch :: transport where
  "txt_fetch url =
     (if qname url = ''example.com'' \<and> qtype url = ''TXT''
      then Response 200 (Some \<lparr>Answer = Some
             [\<lparr>rr_name = ''example.com'', rr_type = 16, TTL = 300,
               data = ''v=spf1 include:_spf.example.com ~all''\<rparr>,
              \<lparr>rr_name = ''example.com'', rr_type = 16, TTL = 300, data = ''other-txt''\<rparr>]\<rparr>)
      else if qtype url = ''MX'' then Response 200 (Some \<lparr>Answer = Some []\<rparr>)
      else Response 200 (Some \<lparr>Answer = None\<rparr>))"

text \<open>A network that knows one A record, of the host given.\<close>

definition a_fetch :: "string \<Rightarrow> transport" where
  "a_fetch host url =
     (if qname url = host \<and> qtype url = ''A''
      then Response 200 (Some \<lparr>Answer = Some
             [\<lparr>rr_name = host, rr_type = 1, TTL = 300, data = ''192.0.2.1''\<rparr>]\<rparr>)
      else Response 404 None)"

text \<open>Two domains with letters beyond ASCII: u with diaeresis U+00FC, and the sharp s.\<close>

definition muenchen :: string where
  "muenchen = ''https://m'' @ [CHR 0xFC] @ ''nchen.de''"

definition MUENCHEN :: string where
  "MUENCHEN = ''HTTPS://M'' @ [CHR 0xDC] @ ''NCHEN.DE''"

definition strasse :: string where
  "strasse = ''stra'' @ [sharp_s] @ ''e.de''"

definition example_com :: app where
  "example_com = initial\<lparr>domain := ''example.com''\<rparr>"

section \<open>Properties of the CAA decoder\<close>

subsection \<open>Characters\<close>

lemma code_less_256: "code c < 256"
  unfolding code_def
  by (metis of_char_mod_256 mod_less_divisor zero_less_numeral)

lemma code_char_of: "n < 256 \<Longrightarrow> code (char_of n) = n"
  by (simp add: code_def)

lemma char_of_code: "char_of (code c) = c"
  by (simp add: code_def)

lemma code_inject: "code a = code b \<Longrightarrow> a = b"
  by (metis char_of_code)

lemma digit_not_space: "isDigit c \<Longrightarrow> \<not> isWhiteSpace c"
  by (auto simp: isDigit_def isWhiteSpace_def)

lemma space_not_digit: "isWhiteSpace c \<Longrightarrow> \<not> isDigit c"
  by (auto simp: isDigit_def isWhiteSpace_def)

lemma hex_not_space: "isHexDigit c \<Longrightarrow> \<not> isWhiteSpace c"
  by (auto simp: isHexDigit_def isDigit_def isWhiteSpace_def)

subsection \<open>Decimal numbers\<close>

text \<open>\<open>decimal\<close> writes a number in decimal digits: reading them gives the number back.\<close>

lemma decimal_digits: "list_all isDigit (decimal n)"
proof (induction n rule: decimal.induct)
  case (1 n)
  have d: "k < 10 \<Longrightarrow> isDigit (char_of (48 + k))" for k :: nat
    by (simp add: isDigit_def code_char_of)
  show ?case
  proof (cases "n < 10")
    case True
    then show ?thesis by (subst decimal.simps) (simp add: d)
  next
    case False
    with 1 have "list_all isDigit (decimal (n div 10))" by simp
    with False show ?thesis by (subst decimal.simps) (simp add: d)
  qed
qed

lemma decimal_value: "foldl (\<lambda>a c. 10 * a + (code c - 48)) 0 (decimal n) = n"
proof (induction n rule: decimal.induct)
  case (1 n)
  show ?case
  proof (cases "n < 10")
    case True
    then show ?thesis by (subst decimal.simps) (simp add: code_char_of)
  next
    case False
    with 1 have "foldl (\<lambda>a c. 10 * a + (code c - 48)) 0 (decimal (n div 10)) = n div 10" by simp
    with False show ?thesis by (subst decimal.simps) (simp add: code_char_of)
  qed
qed

subsection \<open>The greedy quantifier\<close>

lemma plus_greedy_stuck: "s = [] \<or> \<not> p (hd s) \<Longrightarrow> plus_greedy p k acc s = None"
  by (cases s) auto

lemma plus_greedy_longest:
  "run \<noteq> [] \<Longrightarrow> list_all p run \<Longrightarrow> rest = [] \<or> \<not> p (hd rest) \<Longrightarrow>
   k (acc @ run) rest = Some r \<Longrightarrow> plus_greedy p k acc (run @ rest) = Some r"
proof (induction run arbitrary: acc)
  case Nil
  then show ?case by simp
next
  case (Cons c run)
  show ?case
  proof (cases "run = []")
    case True
    with Cons.prems show ?thesis
      by (simp add: plus_greedy_stuck)
  next
    case False
    with Cons.prems have "plus_greedy p k (acc @ [c]) (run @ rest) = Some r"
      by (intro Cons.IH) simp_all
    with Cons.prems show ?thesis by simp
  qed
qed

lemma plus_greedy_sound:
  "plus_greedy p k acc s = Some r \<Longrightarrow>
   \<exists>run rest. s = run @ rest \<and> run \<noteq> [] \<and> list_all p run \<and> k (acc @ run) rest = Some r"
proof (induction s arbitrary: acc)
  case Nil
  then show ?case by simp
next
  case (Cons c s)
  from Cons.prems have pc: "p c" by (simp split: if_splits)
  show ?case
  proof (cases "plus_greedy p k (acc @ [c]) s")
    case None
    with Cons.prems pc have "k (acc @ [c]) s = Some r" by simp
    with pc show ?thesis by (intro exI[of _ "[c]"] exI[of _ s]) simp
  next
    case (Some r')
    with Cons.prems pc have "r' = r" by simp
    with Some Cons.IH obtain run rest where
      "s = run @ rest" "run \<noteq> []" "list_all p run" "k ((acc @ [c]) @ run) rest = Some r"
      by blast
    with pc show ?thesis by (intro exI[of _ "c # run"] exI[of _ rest]) simp
  qed
qed

lemma plus_greedy_complete:
  "run \<noteq> [] \<Longrightarrow> list_all p run \<Longrightarrow> k (acc @ run) rest \<noteq> None \<Longrightarrow>
   plus_greedy p k acc (run @ rest) \<noteq> None"
proof (induction run arbitrary: acc)
  case Nil
  then show ?case by simp
next
  case (Cons c run)
  show ?case
  proof (cases "run = []")
    case True
    with Cons.prems show ?thesis by (auto split: option.splits)
  next
    case False
    with Cons.prems have "plus_greedy p k (acc @ [c]) (run @ rest) \<noteq> None"
      by (intro Cons.IH) simp_all
    with Cons.prems show ?thesis by (auto split: option.splits)
  qed
qed

subsection \<open>The pattern\<close>

lemma lit_Some: "lit c k s = Some r \<longleftrightarrow> (\<exists>t. s = c # t \<and> k t = Some r)"
  by (auto simp: lit_def split: list.splits)

lemma caa_regex_at_group:
  assumes m: "caa_regex_at s = Some g"
  shows "\<exists>ws1 ds ws2 post.
           s = [backslash, CHR ''#''] @ ws1 @ ds @ ws2 @ g @ post \<and>
           ws1 \<noteq> [] \<and> list_all isWhiteSpace ws1 \<and>
           ds \<noteq> [] \<and> list_all isDigit ds \<and>
           ws2 \<noteq> [] \<and> list_all isWhiteSpace ws2 \<and>
           g \<noteq> [] \<and> list_all isHexOrSpace g"
proof -
  from m obtain t where s: "s = backslash # CHR ''#'' # t"
    and 1: "plus_greedy isWhiteSpace (\<lambda>_.
          plus_greedy isDigit (\<lambda>_.
            plus_greedy isWhiteSpace (\<lambda>_.
              plus_greedy isHexOrSpace (\<lambda>g _. Some g) []) []) []) [] t = Some g"
    unfolding caa_regex_at_def lit_Some by auto
  from plus_greedy_sound[OF 1] obtain ws1 r1 where t: "t = ws1 @ r1" "ws1 \<noteq> []" "list_all isWhiteSpace ws1"
    and 2: "plus_greedy isDigit (\<lambda>_.
            plus_greedy isWhiteSpace (\<lambda>_.
              plus_greedy isHexOrSpace (\<lambda>g _. Some g) []) []) [] r1 = Some g"
    by blast
  from plus_greedy_sound[OF 2] obtain ds r2 where r1: "r1 = ds @ r2" "ds \<noteq> []" "list_all isDigit ds"
    and 3: "plus_greedy isWhiteSpace (\<lambda>_.
              plus_greedy isHexOrSpace (\<lambda>g _. Some g) []) [] r2 = Some g"
    by blast
  from plus_greedy_sound[OF 3] obtain ws2 r3 where r2: "r2 = ws2 @ r3" "ws2 \<noteq> []" "list_all isWhiteSpace ws2"
    and 4: "plus_greedy isHexOrSpace (\<lambda>g _. Some g) [] r3 = Some g"
    by blast
  from plus_greedy_sound[OF 4] obtain g' post where r3: "r3 = g' @ post" "g' \<noteq> []" "list_all isHexOrSpace g'"
    and 5: "Some ([] @ g') = Some g"
    by blast
  from 5 have "g' = g" by simp
  with s t r1 r2 r3 show ?thesis
    by (intro exI[of _ ws1] exI[of _ ds] exI[of _ ws2] exI[of _ post]) simp
qed

lemma caa_regex_at_sound: "caa_regex_at s = Some g \<Longrightarrow> generic_record_at s"
  unfolding generic_record_at_def using caa_regex_at_group by blast

lemma caa_regex_at_complete: "generic_record_at s \<Longrightarrow> caa_regex_at s \<noteq> None"
proof -
  assume "generic_record_at s"
  then obtain ws1 ds ws2 g post where
    s: "s = [backslash, CHR ''#''] @ ws1 @ ds @ ws2 @ g @ post"
    and ws1: "ws1 \<noteq> []" "list_all isWhiteSpace ws1"
    and ds: "ds \<noteq> []" "list_all isDigit ds"
    and ws2: "ws2 \<noteq> []" "list_all isWhiteSpace ws2"
    and g: "g \<noteq> []" "list_all isHexOrSpace g"
    unfolding generic_record_at_def by blast
  have 4: "plus_greedy isHexOrSpace (\<lambda>g _. Some g) a (g @ post) \<noteq> None" for a :: string
    by (rule plus_greedy_complete[OF g]) simp
  have 3: "plus_greedy isWhiteSpace (\<lambda>_. plus_greedy isHexOrSpace (\<lambda>g _. Some g) []) a
             (ws2 @ g @ post) \<noteq> None" for a :: string
    by (rule plus_greedy_complete[OF ws2]) (rule 4)
  have 2: "plus_greedy isDigit (\<lambda>_. plus_greedy isWhiteSpace (\<lambda>_.
             plus_greedy isHexOrSpace (\<lambda>g _. Some g) []) []) a (ds @ ws2 @ g @ post) \<noteq> None"
    for a :: string
    by (rule plus_greedy_complete[OF ds]) (rule 3)
  have 1: "plus_greedy isWhiteSpace (\<lambda>_. plus_greedy isDigit (\<lambda>_. plus_greedy isWhiteSpace (\<lambda>_.
             plus_greedy isHexOrSpace (\<lambda>g _. Some g) []) []) []) a (ws1 @ ds @ ws2 @ g @ post) \<noteq> None"
    for a :: string
    by (rule plus_greedy_complete[OF ws1]) (rule 2)
  from 1[of "[]"] show ?thesis
    unfolding caa_regex_at_def s by (simp add: lit_def)
qed

lemma caa_regex_match_None_iff: "caa_regex_match s = None \<longleftrightarrow> \<not> contains_generic_record s"
proof (induction s)
  case Nil
  have "caa_regex_at [] = None" by (simp add: caa_regex_at_def lit_def)
  moreover have "\<not> generic_record_at []" by (simp add: generic_record_at_def)
  ultimately show ?case by (simp add: contains_generic_record_def)
next
  case (Cons c s)
  have split: "contains_generic_record (c # s) \<longleftrightarrow> generic_record_at (c # s) \<or> contains_generic_record s"
    unfolding contains_generic_record_def
    by (auto simp: Cons_eq_append_conv) 
  show ?case
  proof (cases "caa_regex_at (c # s)")
    case None
    then have "\<not> generic_record_at (c # s)" using caa_regex_at_complete by blast
    with None Cons.IH split show ?thesis by simp
  next
    case (Some g)
    then have "generic_record_at (c # s)" by (rule caa_regex_at_sound)
    with Some split show ?thesis by simp
  qed
qed

lemma caa_regex_at_exact:
  assumes ws1: "ws1 \<noteq> []" "list_all isWhiteSpace ws1"
    and ds: "ds \<noteq> []" "list_all isDigit ds"
    and ws2: "ws2 \<noteq> []" "list_all isWhiteSpace ws2"
    and g: "g \<noteq> []" "list_all isHexOrSpace g" "\<not> isWhiteSpace (hd g)"
    and post: "post = [] \<or> \<not> isHexOrSpace (hd post)"
  shows "caa_regex_at ([backslash, CHR ''#''] @ ws1 @ ds @ ws2 @ g @ post) = Some g"
proof -
  have 4: "plus_greedy isHexOrSpace (\<lambda>g _. Some g) [] (g @ post) = Some g"
    by (rule plus_greedy_longest[OF g(1,2) post]) simp
  have "g @ post = [] \<or> \<not> isWhiteSpace (hd (g @ post))" using g by simp
  note 3 = plus_greedy_longest[OF ws2 this, where k = "\<lambda>_. plus_greedy isHexOrSpace (\<lambda>g _. Some g) []", OF 4]
  have "ws2 @ g @ post = [] \<or> \<not> isDigit (hd (ws2 @ g @ post))"
    using ws2 by (cases ws2) (auto simp: space_not_digit)
  note 2 = plus_greedy_longest[OF ds this, where k = "\<lambda>_. plus_greedy isWhiteSpace (\<lambda>_. plus_greedy isHexOrSpace (\<lambda>g _. Some g) []) []", OF 3]
  have "ds @ ws2 @ g @ post = [] \<or> \<not> isWhiteSpace (hd (ds @ ws2 @ g @ post))"
    using ds by (cases ds) (auto simp: digit_not_space)
  note 1 = plus_greedy_longest[OF ws1 this, where k = "\<lambda>_. plus_greedy isDigit (\<lambda>_. plus_greedy isWhiteSpace (\<lambda>_. plus_greedy isHexOrSpace (\<lambda>g _. Some g) []) []) []", OF 2]
  show ?thesis
    unfolding caa_regex_at_def using 1[of "[]"] by (simp add: lit_def)
qed

lemma caa_regex_match_at: "caa_regex_at s = Some g \<Longrightarrow> caa_regex_match s = Some g"
  by (cases s) simp_all

lemma caa_regex_match_group:
  "caa_regex_match s = Some g \<Longrightarrow> g \<noteq> [] \<and> list_all isHexOrSpace g"
proof (induction s)
  case Nil
  then show ?case using caa_regex_at_group[of "[]" g] by simp
next
  case (Cons c s)
  then show ?case
    using caa_regex_at_group[of "c # s" g] by (auto split: option.splits)
qed

lemma hexBytes_hex:
  "caa_regex_match s = Some g \<Longrightarrow> list_all isHexDigit (remove_whitespace g)"
  using caa_regex_match_group[of s g]
  by (auto simp: list_all_iff remove_whitespace_def isHexOrSpace_def)

subsection \<open>Decoding a hex dump\<close>

lemma code_lowerChar:
  "code (lowerChar c) =
     (if (65 \<le> code c \<and> code c \<le> 90) \<or> (192 \<le> code c \<and> code c \<le> 222 \<and> code c \<noteq> 215)
      then code c + 32 else code c)"
  by (auto simp: lowerChar_def code_char_of)

lemma code_hexDigitChar: "i < 16 \<Longrightarrow> code (hexDigitChar i) = (if i < 10 then 48 + i else 87 + i)"
  by (simp add: hexDigitChar_def code_char_of)

lemma lower_hex_digit:
  assumes "i < 16" "lowerChar a = hexDigitChar i"
  shows "isHexDigit a \<and> hexValue a = i"
proof -
  from assms have "code (lowerChar a) = (if i < 10 then 48 + i else 87 + i)"
    by (simp add: code_hexDigitChar)
  with assms(1) show ?thesis
    unfolding code_lowerChar isHexDigit_def hexValue_def isDigit_def
    by (auto split: if_splits)
qed

lemma hex_not_line_terminator: "isHexDigit c \<Longrightarrow> \<not> isLineTerminator c"
  by (auto simp: isHexDigit_def isDigit_def isLineTerminator_def)

lemma parseInt16_pair:
  "isHexDigit a \<Longrightarrow> isHexDigit c \<Longrightarrow> parseInt16 [a, c] = Some (16 * hexValue a + hexValue c)"
  by (simp add: parseInt16_def)

lemma lower_hexByte:
  assumes "b < 256" "toLowerCase p = hexByte b"
  shows "\<exists>a c. p = [a, c] \<and> isHexDigit a \<and> isHexDigit c \<and> parseInt16 p = Some b"
proof -
  from assms(2) obtain a c where p: "p = [a, c]"
    and a: "lowerChar a = hexDigitChar (b div 16)" and c: "lowerChar c = hexDigitChar (b mod 16)"
    by (auto simp: toLowerCase_def hexByte_def map_eq_Cons_conv)
  from assms(1) have "b div 16 < 16" by simp
  from lower_hex_digit[OF this a] have A: "isHexDigit a" "hexValue a = b div 16" by simp_all
  have "b mod 16 < 16" by simp
  from lower_hex_digit[OF this c] have C: "isHexDigit c" "hexValue c = b mod 16" by simp_all
  from A C p show ?thesis by (simp add: parseInt16_pair)
qed

lemma length_hexDump: "length (hexDump bs) = 2 * length bs"
  by (induction bs) (simp_all add: hexDump_def hexByte_def)

lemma hexDump_append: "hexDump (xs @ ys) = hexDump xs @ hexDump ys"
  by (simp add: hexDump_def)

lemma hexDump_Cons: "hexDump (b # bs) = hexByte b @ hexDump bs"
  by (simp add: hexDump_def)

lemma toLowerCase_take: "toLowerCase (take n s) = take n (toLowerCase s)"
  by (simp add: toLowerCase_def take_map)

lemma toLowerCase_drop: "toLowerCase (drop n s) = drop n (toLowerCase s)"
  by (simp add: toLowerCase_def drop_map)

lemma length_toLowerCase: "length (toLowerCase s) = length s"
  by (simp add: toLowerCase_def)

lemma pairs_hexDump:
  "toLowerCase H = hexDump bs \<Longrightarrow> \<forall>b\<in>set bs. b < 256 \<Longrightarrow>
   decodeBytes (pairs H) = map char_of bs \<and> length (pairs H) = length bs \<and> list_all isHexDigit H"
proof (induction bs arbitrary: H)
  case Nil
  then show ?case by (simp add: hexDump_def toLowerCase_def decodeBytes_def)
next
  case (Cons b bs)
  from Cons.prems(1) have len: "length H = 2 + 2 * length bs"
    by (metis length_toLowerCase length_hexDump length_Cons mult_Suc_right add.commute add_2_eq_Suc')
  have "toLowerCase (take 2 H) = hexByte b"
    using Cons.prems(1) by (simp add: toLowerCase_take hexDump_Cons hexByte_def)
  with Cons.prems(2) obtain a c where ac: "take 2 H = [a, c]" "isHexDigit a" "isHexDigit c"
    "parseInt16 (take 2 H) = Some b"
    using lower_hexByte[of b "take 2 H"] by auto
  have "toLowerCase (drop 2 H) = hexDump bs"
    using Cons.prems(1) by (simp add: toLowerCase_drop hexDump_Cons hexByte_def)
  with Cons.IH Cons.prems(2) have IH: "decodeBytes (pairs (drop 2 H)) = map char_of bs"
    "length (pairs (drop 2 H)) = length bs" "list_all isHexDigit (drop 2 H)"
    by simp_all
  have H: "H = a # c # drop 2 H"
    using ac(1) by (metis append_take_drop_id append_Cons append_Nil)
  have "pairs H = [a, c] # pairs (drop 2 H)"
    by (subst H) (simp add: ac hex_not_line_terminator)
  moreover have "list_all isHexDigit H"
    by (subst H) (simp add: ac IH)
  ultimately show ?case
    using IH ac by (simp add: decodeBytes_def fromCharCode_def)
qed

lemma parseCAA_try_hexDump:
  assumes H: "toLowerCase H = hexDump (flags # length tag # map code tag @ map code value)"
    and flags: "flags < 256" and len: "length tag < 256"
    and tag: "tag \<noteq> []" and val: "value \<noteq> []"
  shows "parseCAA_try H =
           Inr (decimal flags @ '' '' @ tag @ [CHR 0x20, CHR 0x22] @ value @ [CHR 0x22])"
proof -
  let ?n = "length tag"
  have lenH: "length H = 4 + 2 * ?n + 2 * length value"
    using arg_cong[OF H, of length] by (simp add: length_toLowerCase length_hexDump)
  have "toLowerCase (take 2 H) = hexByte flags"
    using H by (simp add: toLowerCase_take hexDump_Cons hexByte_def)
  from lower_hexByte[OF flags this] have f: "parseInt16 (take 2 H) = Some flags" by auto
  have "toLowerCase (take 2 (drop 2 H)) = hexByte ?n"
    using H by (simp add: toLowerCase_take toLowerCase_drop hexDump_Cons hexByte_def)
  from lower_hexByte[OF len this] have t: "parseInt16 (take 2 (drop 2 H)) = Some ?n" by auto
  have d4: "drop 4 (toLowerCase H) = hexDump (map code tag) @ hexDump (map code value)"
    using H by (simp add: hexDump_Cons hexByte_def hexDump_append)
  have "toLowerCase (take (?n * 2) (drop 4 H)) = hexDump (map code tag)"
    by (simp add: toLowerCase_take toLowerCase_drop d4 length_hexDump mult.commute)
  from pairs_hexDump[OF this] have tg: "decodeBytes (pairs (take (?n * 2) (drop 4 H))) = tag"
    "length (pairs (take (?n * 2) (drop 4 H))) = ?n"
    by (simp_all add: code_less_256 char_of_code o_def)
  have "drop (4 + ?n * 2) (toLowerCase H) = drop (?n * 2) (drop 4 (toLowerCase H))"
    by (simp add: add.commute)
  then have "toLowerCase (drop (4 + ?n * 2) H) = hexDump (map code value)"
    unfolding toLowerCase_drop d4 by (simp add: length_hexDump mult.commute)
  from pairs_hexDump[OF this] have vl: "decodeBytes (pairs (drop (4 + ?n * 2) H)) = value"
    "length (pairs (drop (4 + ?n * 2) H)) = length value"
    by (simp_all add: code_less_256 char_of_code o_def)
  from tg(2) tag have tne: "pairs (take (?n * 2) (drop 4 H)) \<noteq> []" by auto
  from vl(2) val have vne: "pairs (drop (4 + ?n * 2) H) \<noteq> []" by auto
  show ?thesis
    unfolding parseCAA_try_def
    by (simp add: substr_def substr_from_def toInteger_def num_times_def num_plus_def f t
        match_pairs_def Let_def tne vne tg vl numberToString_def del: decimal.simps)
qed

lemma remove_whitespace_dropWhile:
  "remove_whitespace (dropWhile isWhiteSpace s) = remove_whitespace s"
  by (induction s) (simp_all add: remove_whitespace_def)

lemma caa_regex_match_record:
  assumes ws1: "ws1 \<noteq> []" "list_all isWhiteSpace ws1"
    and ds: "ds \<noteq> []" "list_all isDigit ds"
    and ws2: "ws2 \<noteq> []" "list_all isWhiteSpace ws2"
    and hex: "list_all isHexDigit (remove_whitespace body)"
    and ne: "remove_whitespace body \<noteq> []"
  shows "caa_regex_match ([backslash, CHR ''#''] @ ws1 @ ds @ ws2 @ body)
           = Some (dropWhile isWhiteSpace body)"
proof -
  let ?g = "dropWhile isWhiteSpace body"
  let ?w = "ws2 @ takeWhile isWhiteSpace body"
  have cls: "list_all isHexOrSpace body"
    using hex by (auto simp: list_all_iff remove_whitespace_def isHexOrSpace_def)
  from ne have gne: "?g \<noteq> []"
    by (metis remove_whitespace_dropWhile remove_whitespace_def filter.simps(1))
  then have hd: "\<not> isWhiteSpace (hd ?g)" by (rule hd_dropWhile)
  have gcls: "list_all isHexOrSpace ?g"
    using cls by (metis list_all_append takeWhile_dropWhile_id)
  have w: "?w \<noteq> []" "list_all isWhiteSpace ?w"
    using ws2 by (auto simp: list_all_iff dest: set_takeWhileD)
  have "caa_regex_at ([backslash, CHR ''#''] @ ws1 @ ds @ ?w @ ?g @ []) = Some ?g"
    by (rule caa_regex_at_exact[OF ws1 ds w gne gcls hd]) simp
  then show ?thesis
    by (intro caa_regex_match_at) simp
qed

lemma hexDump_record:
  assumes body: "toLowerCase H = hexDump (caa_wire flags tag val)"
    and flags: "flags < 256" and len: "length tag < 256"
  shows "list_all isHexDigit H" "H \<noteq> []"
proof -
  note body' = body[unfolded caa_wire_def]
  have "\<forall>b\<in>set (flags # length tag # map code tag @ map code val). b < 256"
    using flags len by (auto simp: code_less_256)
  from pairs_hexDump[OF body' this] show "list_all isHexDigit H"
    by blast
  show "H \<noteq> []"
    using arg_cong[OF body', of length] by (auto simp: length_hexDump length_toLowerCase)
qed

text \<open>A record without tag bytes or without value bytes makes the \<^verbatim>\<open>try\<close> block throw.\<close>

lemma parseCAA_try_zero_length:
  assumes H: "toLowerCase H = hexDump (caa_wire flags tag val)"
    and flags: "flags < 256" and len: "length tag < 256"
    and zero: "tag = [] \<or> val = []"
  shows "parseCAA_try H = Inl TypeError"
proof -
  let ?n = "length tag"
  note H' = H[unfolded caa_wire_def]
  have lenH: "length H = 4 + 2 * ?n + 2 * length val"
    using arg_cong[OF H', of length] by (simp add: length_toLowerCase length_hexDump)
  have "toLowerCase (take 2 (drop 2 H)) = hexByte ?n"
    using H' by (simp add: toLowerCase_take toLowerCase_drop hexDump_Cons hexByte_def)
  from lower_hexByte[OF len this] have t: "parseInt16 (take 2 (drop 2 H)) = Some ?n" by auto
  show ?thesis
  proof (cases "tag = []")
    case True
    with t show ?thesis
      by (simp add: parseCAA_try_def substr_def toInteger_def num_times_def match_pairs_def)
  next
    case False
    with zero have v: "val = []" by simp
    have "drop (4 + ?n * 2) H = []" using lenH v by simp
    then show ?thesis
      by (simp add: parseCAA_try_def substr_def substr_from_def toInteger_def num_times_def
          num_plus_def t match_pairs_def Let_def split: option.splits)
  qed
qed

lemma parseCAA_zero_length:
  assumes ws1: "ws1 \<noteq> []" "list_all isWhiteSpace ws1"
    and ds: "ds \<noteq> []" "list_all isDigit ds"
    and ws2: "ws2 \<noteq> []" "list_all isWhiteSpace ws2"
    and body: "toLowerCase (remove_whitespace body) = hexDump (caa_wire flags tag val)"
    and flags: "flags < 256" and len: "length tag < 256"
    and zero: "tag = [] \<or> val = []"
  shows "parseCAA ([backslash, CHR ''#''] @ ws1 @ ds @ ws2 @ body) =
           [backslash, CHR ''#''] @ ws1 @ ds @ ws2 @ body"
proof -
  have "caa_regex_match ([backslash, CHR ''#''] @ ws1 @ ds @ ws2 @ body)
          = Some (dropWhile isWhiteSpace body)"
    by (rule caa_regex_match_record[OF ws1 ds ws2 hexDump_record[OF body flags len]])
  moreover have "parseCAA_try (remove_whitespace (dropWhile isWhiteSpace body)) = Inl TypeError"
    unfolding remove_whitespace_dropWhile
    by (rule parseCAA_try_zero_length[OF body flags len zero])
  ultimately show ?thesis
    by (simp add: parseCAA_def)
qed

lemma hexValue_less: "isHexDigit c \<Longrightarrow> hexValue c < 16"
  by (auto simp: isHexDigit_def hexValue_def isDigit_def)

lemma length_decodeBytes: "length (decodeBytes ps) = length ps"
  by (induction ps) (simp_all add: decodeBytes_def fromCharCode_def split: option.splits)

lemma pairs_hex_Nil_iff: "list_all isHexDigit H \<Longrightarrow> pairs H = [] \<longleftrightarrow> length H < 2"
  by (cases H rule: pairs.cases) (auto simp: hex_not_line_terminator)

text \<open>
  The \<^verbatim>\<open>try\<close> block throws exactly when the tag length is 0 (or missing), or the bytes
  end before the first byte of the value.
\<close>

lemma parseCAA_try_throws_iff:
  assumes "list_all isHexDigit H"
  shows "isl (parseCAA_try H) \<longleftrightarrow>
           (let n = toInteger (parseInt16 (substr H (Some 2) (Some 2)))
            in n = 0 \<or> length H < 6 + 2 * n)"
proof -
  let ?n = "toInteger (parseInt16 (substr H (Some 2) (Some 2)))"
  have n: "toInteger (num_times (parseInt16 (substr H (Some 2) (Some 2))) (Some 2)) = ?n * 2"
    "toInteger (num_plus (Some 4) (num_times (parseInt16 (substr H (Some 2) (Some 2))) (Some 2)))
       = (if parseInt16 (substr H (Some 2) (Some 2)) = None then 0 else 4 + ?n * 2)"
    by (simp_all add: toInteger_def num_times_def num_plus_def split: option.splits)
  have t: "list_all isHexDigit (take k (drop 4 H))" for k
    using assms by (auto simp: list_all_iff dest: in_set_takeD in_set_dropD)
  have v: "list_all isHexDigit (drop k H)" for k
    using assms by (auto simp: list_all_iff dest: in_set_dropD)
  show ?thesis
    unfolding parseCAA_try_def
    by (auto simp: Let_def match_pairs_def substr_def[of H "Some 4"] substr_from_def n
        pairs_hex_Nil_iff[OF t] pairs_hex_Nil_iff[OF v] toInteger_def[of "Some 4"]
        toInteger_def[of None]
        split: option.splits)
qed

subsection \<open>Text after the complete bytes\<close>

lemma caa_regex_match_record_rest:
  assumes ws1: "ws1 \<noteq> []" "list_all isWhiteSpace ws1"
    and ds: "ds \<noteq> []" "list_all isDigit ds"
    and ws2: "ws2 \<noteq> []" "list_all isWhiteSpace ws2"
    and hex: "list_all isHexDigit (remove_whitespace body)"
    and ne: "remove_whitespace body \<noteq> []"
    and rest: "rest = [] \<or> \<not> isHexOrSpace (hd rest)"
  shows "caa_regex_match ([backslash, CHR ''#''] @ ws1 @ ds @ ws2 @ body @ rest)
           = Some (dropWhile isWhiteSpace body)"
proof -
  let ?g = "dropWhile isWhiteSpace body"
  let ?w = "ws2 @ takeWhile isWhiteSpace body"
  have cls: "list_all isHexOrSpace body"
    using hex by (auto simp: list_all_iff remove_whitespace_def isHexOrSpace_def)
  from ne have gne: "?g \<noteq> []"
    by (metis remove_whitespace_dropWhile remove_whitespace_def filter.simps(1))
  then have hd: "\<not> isWhiteSpace (hd ?g)" by (rule hd_dropWhile)
  have gcls: "list_all isHexOrSpace ?g"
    using cls by (metis list_all_append takeWhile_dropWhile_id)
  have w: "?w \<noteq> []" "list_all isWhiteSpace ?w"
    using ws2 by (auto simp: list_all_iff dest: set_takeWhileD)
  have m: "caa_regex_at ([backslash, CHR ''#''] @ ws1 @ ds @ ?w @ ?g @ rest) = Some ?g"
    by (rule caa_regex_at_exact[OF ws1 ds w gne gcls hd rest])
  have eq: "?w @ ?g @ rest = ws2 @ body @ rest"
    by (metis append.assoc takeWhile_dropWhile_id)
  show ?thesis
    by (rule caa_regex_match_at) (rule m[unfolded eq])
qed

lemma pairs_short: "length e \<le> 1 \<Longrightarrow> pairs e = []"
  by (cases e rule: pairs.cases) simp_all

lemma pairs_hexDump_dangling:
  "toLowerCase V = hexDump bs \<Longrightarrow> \<forall>b\<in>set bs. b < 256 \<Longrightarrow> length e \<le> 1 \<Longrightarrow>
   pairs (V @ e) = pairs V"
proof (induction bs arbitrary: V)
  case Nil
  then show ?case by (simp add: hexDump_def toLowerCase_def pairs_short)
next
  case (Cons b bs)
  have "toLowerCase (take 2 V) = hexByte b"
    using Cons.prems(1) by (simp add: toLowerCase_take hexDump_Cons hexByte_def)
  with Cons.prems(2) obtain a c where ac: "take 2 V = [a, c]" "isHexDigit a" "isHexDigit c"
    using lower_hexByte[of b "take 2 V"] by auto
  have "toLowerCase (drop 2 V) = hexDump bs"
    using Cons.prems(1) by (simp add: toLowerCase_drop hexDump_Cons hexByte_def)
  with Cons.IH Cons.prems have IH: "pairs (drop 2 V @ e) = pairs (drop 2 V)"
    by simp
  have V: "V = a # c # drop 2 V"
    using ac(1) by (metis append_take_drop_id append_Cons append_Nil)
  have "pairs (V @ e) = [a, c] # pairs (drop 2 V @ e)"
    by (subst V) (simp add: ac hex_not_line_terminator)
  moreover have "pairs V = [a, c] # pairs (drop 2 V)"
    by (subst V) (simp add: ac hex_not_line_terminator)
  ultimately show ?case using IH by simp
qed

lemma parseCAA_try_dangling:
  assumes H: "toLowerCase H = hexDump (caa_wire flags tag val)"
    and flags: "flags < 256" and len: "length tag < 256"
    and tag: "tag \<noteq> []" and val: "val \<noteq> []"
    and e: "length e \<le> 1"
  shows "parseCAA_try (H @ e) =
           Inr (decimal flags @ '' '' @ tag @ [CHR 0x20, CHR 0x22] @ val @ [CHR 0x22])"
proof -
  let ?n = "length tag"
  note H' = H[unfolded caa_wire_def]
  have lenH: "length H = 4 + 2 * ?n + 2 * length val"
    using arg_cong[OF H', of length] by (simp add: length_toLowerCase length_hexDump)
  have "toLowerCase (take 2 (drop 2 H)) = hexByte ?n"
    using H' by (simp add: toLowerCase_take toLowerCase_drop hexDump_Cons hexByte_def)
  from lower_hexByte[OF len this] have t: "parseInt16 (take 2 (drop 2 H)) = Some ?n" by auto
  have d4: "drop 4 (toLowerCase H) = hexDump (map code tag) @ hexDump (map code val)"
    using H' by (simp add: hexDump_Cons hexByte_def hexDump_append)
  have "drop (4 + ?n * 2) (toLowerCase H) = drop (?n * 2) (drop 4 (toLowerCase H))"
    by (simp add: add.commute)
  then have "toLowerCase (drop (4 + ?n * 2) H) = hexDump (map code val)"
    unfolding toLowerCase_drop d4 by (simp add: length_hexDump mult.commute)
  from pairs_hexDump_dangling[OF this _ e]
  have v: "pairs (drop (4 + ?n * 2) H @ e) = pairs (drop (4 + ?n * 2) H)"
    by (simp add: code_less_256)
  have a: "take 2 (H @ e) = take 2 H" "take 2 (drop 2 (H @ e)) = take 2 (drop 2 H)"
    "take (?n * 2) (drop 4 (H @ e)) = take (?n * 2) (drop 4 H)"
    "drop (4 + ?n * 2) (H @ e) = drop (4 + ?n * 2) H @ e"
    using lenH by simp_all
  have "parseCAA_try (H @ e) = parseCAA_try H"
    unfolding parseCAA_try_def
    by (simp add: substr_def substr_from_def toInteger_def num_times_def num_plus_def a t v
        match_pairs_def Let_def del: decimal.simps take_append drop_append)
  then show ?thesis
    using parseCAA_try_hexDump[OF H' flags len tag val] by simp
qed

lemma remove_whitespace_append:
  "remove_whitespace (s @ t) = remove_whitespace s @ remove_whitespace t"
  by (simp add: remove_whitespace_def)

lemma remove_whitespace_hex:
  "list_all isHexOrSpace t \<Longrightarrow> list_all isHexDigit (remove_whitespace t)"
  by (auto simp: list_all_iff remove_whitespace_def isHexOrSpace_def)

text \<open>
  The byte length is not compared with the bytes, a hex digit left over after the last
  complete byte is dropped, and the text after the hex digits is not looked at.
\<close>

lemma parseCAA_lenient:
  assumes ws1: "ws1 \<noteq> []" "list_all isWhiteSpace ws1"
    and ds: "ds \<noteq> []" "list_all isDigit ds"
    and ws2: "ws2 \<noteq> []" "list_all isWhiteSpace ws2"
    and body: "toLowerCase (remove_whitespace body) = hexDump (caa_wire flags tag val)"
    and flags: "flags < 256" and len: "length tag < 256"
    and tag: "tag \<noteq> []" and val: "val \<noteq> []"
    and dangling: "list_all isHexOrSpace dangling" "length (remove_whitespace dangling) \<le> 1"
    and rest: "rest = [] \<or> \<not> isHexOrSpace (hd rest)"
  shows "parseCAA ([backslash, CHR ''#''] @ ws1 @ ds @ ws2 @ body @ dangling @ rest) =
           decimal flags @ '' '' @ tag @ [CHR 0x20, CHR 0x22] @ val @ [CHR 0x22]"
proof -
  let ?B = "body @ dangling"
  note rec = hexDump_record[OF body flags len]
  have hex: "list_all isHexDigit (remove_whitespace ?B)"
    using rec(1) remove_whitespace_hex[OF dangling(1)] by (simp add: remove_whitespace_append)
  have ne: "remove_whitespace ?B \<noteq> []"
    using rec(2) by (simp add: remove_whitespace_append)
  have "caa_regex_match ([backslash, CHR ''#''] @ ws1 @ ds @ ws2 @ ?B @ rest)
          = Some (dropWhile isWhiteSpace ?B)"
    by (rule caa_regex_match_record_rest[OF ws1 ds ws2 hex ne rest])
  moreover have "parseCAA_try (remove_whitespace (dropWhile isWhiteSpace ?B)) =
      Inr (decimal flags @ '' '' @ tag @ [CHR 0x20, CHR 0x22] @ val @ [CHR 0x22])"
    unfolding remove_whitespace_dropWhile remove_whitespace_append
    by (rule parseCAA_try_dangling[OF body flags len tag val dangling(2)])
  ultimately show ?thesis
    by (simp add: parseCAA_def del: decimal.simps)
qed

text \<open>A tag length that reaches past the last byte makes the \<^verbatim>\<open>try\<close> block throw.\<close>

lemma parseCAA_try_past_end:
  assumes H: "toLowerCase H = hexDump (flags # n # partial)"
    and bytes: "flags < 256" "n < 256" "\<forall>b\<in>set partial. b < 256"
    and short: "length partial < n"
    and e: "length e \<le> 1"
  shows "parseCAA_try (H @ e) = Inl TypeError"
proof -
  have lenH: "length H = 4 + 2 * length partial"
    using arg_cong[OF H, of length] by (simp add: length_toLowerCase length_hexDump)
  have "toLowerCase (take 2 (drop 2 H)) = hexByte n"
    using H by (simp add: toLowerCase_take toLowerCase_drop hexDump_Cons hexByte_def)
  from lower_hexByte[OF bytes(2) this] have "parseInt16 (take 2 (drop 2 H)) = Some n" by auto
  moreover have "take 2 (drop 2 (H @ e)) = take 2 (drop 2 H)"
    using lenH by simp
  ultimately have t: "parseInt16 (take 2 (drop 2 (H @ e))) = Some n" by (simp only:)
  have "length (H @ e) \<le> 4 + n * 2" using lenH short e by simp
  then have "drop (4 + n * 2) (H @ e) = []" by simp
  then show ?thesis
    unfolding parseCAA_try_def
    by (simp add: substr_def substr_from_def toInteger_def num_times_def num_plus_def t
        match_pairs_def Let_def del: take_append drop_append split: option.splits)
qed

lemma parseCAA_tag_past_end:
  assumes ws1: "ws1 \<noteq> []" "list_all isWhiteSpace ws1"
    and ds: "ds \<noteq> []" "list_all isDigit ds"
    and ws2: "ws2 \<noteq> []" "list_all isWhiteSpace ws2"
    and body: "toLowerCase (remove_whitespace body) = hexDump (flags # n # partial)"
    and bytes: "flags < 256" "n < 256" "\<forall>b\<in>set partial. b < 256"
    and short: "length partial < n"
    and dangling: "list_all isHexOrSpace dangling" "length (remove_whitespace dangling) \<le> 1"
    and rest: "rest = [] \<or> \<not> isHexOrSpace (hd rest)"
  shows "parseCAA ([backslash, CHR ''#''] @ ws1 @ ds @ ws2 @ body @ dangling @ rest) =
           [backslash, CHR ''#''] @ ws1 @ ds @ ws2 @ body @ dangling @ rest"
proof -
  let ?B = "body @ dangling"
  have "\<forall>b\<in>set (flags # n # partial). b < 256" using bytes by simp
  from pairs_hexDump[OF body this] have hb: "list_all isHexDigit (remove_whitespace body)"
    by blast
  have nb: "remove_whitespace body \<noteq> []"
    using arg_cong[OF body, of length] by (auto simp: length_hexDump length_toLowerCase)
  have hex: "list_all isHexDigit (remove_whitespace ?B)"
    using hb remove_whitespace_hex[OF dangling(1)] by (simp add: remove_whitespace_append)
  have ne: "remove_whitespace ?B \<noteq> []"
    using nb by (simp add: remove_whitespace_append)
  have "caa_regex_match ([backslash, CHR ''#''] @ ws1 @ ds @ ws2 @ ?B @ rest)
          = Some (dropWhile isWhiteSpace ?B)"
    by (rule caa_regex_match_record_rest[OF ws1 ds ws2 hex ne rest])
  moreover have "parseCAA_try (remove_whitespace (dropWhile isWhiteSpace ?B)) = Inl TypeError"
    unfolding remove_whitespace_dropWhile remove_whitespace_append
    by (rule parseCAA_try_past_end[OF body bytes short dangling(2)])
  ultimately show ?thesis
    by (simp add: parseCAA_def)
qed

text \<open>The result is the input, or a text of the form that the decoder prints.\<close>

lemma parseCAA_result:
  \<open>parseCAA s = s \<or>
   (\<exists>flags tag val. flags < 256 \<and> parseCAA s = decimal flags @ '' '' @ tag @ '' "'' @ val @ ''"'')\<close>
proof (cases "caa_regex_match s")
  case None
  then show ?thesis by (simp add: parseCAA_def)
next
  case (Some g)
  let ?H = "remove_whitespace g"
  show ?thesis
  proof (cases "parseCAA_try ?H")
    case (Inl e)
    with Some show ?thesis by (simp add: parseCAA_def)
  next
    case (Inr out)
    let ?n = "parseInt16 (substr ?H (Some 2) (Some 2))"
    let ?tp = "pairs (substr ?H (Some 4) (num_times ?n (Some 2)))"
    let ?vp = "pairs (substr_from ?H (num_plus (Some 4) (num_times ?n (Some 2))))"
    from Inr have tp: "?tp \<noteq> []"
      and out: "out = numberToString (parseInt16 (substr ?H (Some 0) (Some 2))) @ '' ''
                  @ decodeBytes ?tp @ [CHR 0x20, CHR 0x22] @ decodeBytes ?vp @ [CHR 0x22]"
      by (auto simp: parseCAA_try_def Let_def match_pairs_def split: if_splits)
    from tp have "length (substr ?H (Some 4) (num_times ?n (Some 2))) \<ge> 2"
      by (cases "substr ?H (Some 4) (num_times ?n (Some 2))" rule: pairs.cases) auto
    then have "length (drop 4 ?H) \<ge> 2" by (simp add: substr_def toInteger_def[of "Some 4"])
    then have "length ?H \<ge> 6" by simp
    then obtain a b r where H: "?H = a # b # r"
      by (cases ?H; cases "tl ?H") auto
    have ab: "isHexDigit a" "isHexDigit b"
      using hexBytes_hex[OF Some] H by simp_all
    then have f: "parseInt16 (substr ?H (Some 0) (Some 2)) = Some (16 * hexValue a + hexValue b)"
      unfolding H by (simp add: substr_def toInteger_def parseInt16_pair)
    have "16 * hexValue a + hexValue b < 256"
      using hexValue_less[OF ab(1)] hexValue_less[OF ab(2)] by simp
    moreover have "parseCAA s = out"
      using Some Inr by (simp add: parseCAA_def)
    ultimately show ?thesis
      unfolding out f by (auto simp: numberToString_def simp del: decimal.simps)
  qed
qed

subsection \<open>Records with a tag and a value\<close>

text \<open>
  A well-formed generic record is a backslash and a hash sign, white space, the decimal byte
  length, white space, and the hex dump of the wire bytes (hex digits in either case, white
  space anywhere between them). When the tag has at least one byte and the value has at
  least one byte, \<open>parseCAA\<close> returns the flags in decimal, a space, the tag, a space and
  the value in double quotes, tag and value decoded byte by byte.
\<close>

lemma parseCAA_generic_record:
  assumes ws1: "ws1 \<noteq> []" "list_all isWhiteSpace ws1"
    and ds: "ds \<noteq> []" "list_all isDigit ds"
    and ws2: "ws2 \<noteq> []" "list_all isWhiteSpace ws2"
    and body: "toLowerCase (remove_whitespace body) = hexDump (caa_wire flags tag val)"
    and flags: "flags < 256" and len: "length tag < 256"
    and tag: "tag \<noteq> []" and val: "val \<noteq> []"
  shows \<open>parseCAA ([backslash, CHR ''#''] @ ws1 @ ds @ ws2 @ body) =
           decimal flags @ '' '' @ tag @ '' "'' @ val @ ''"''\<close>
proof -
  note rec = hexDump_record[OF body flags len]
  have "caa_regex_match ([backslash, CHR ''#''] @ ws1 @ ds @ ws2 @ body)
          = Some (dropWhile isWhiteSpace body)"
    by (rule caa_regex_match_record[OF ws1 ds ws2 rec])
  moreover have "parseCAA_try (remove_whitespace (dropWhile isWhiteSpace body)) =
      Inr (decimal flags @ '' '' @ tag @ [CHR 0x20, CHR 0x22] @ val @ [CHR 0x22])"
    unfolding remove_whitespace_dropWhile
    by (rule parseCAA_try_hexDump[OF body[unfolded caa_wire_def] flags len tag val])
  ultimately show ?thesis
    by (simp add: parseCAA_def del: decimal.simps)
qed

text \<open>
  The record of the specification: wire bytes 00 05 69 73 73 75 65 74 65 73 74 63 61 2e 63
  6f 6d, that is flags 0, tag \<open>issue\<close>, value \<open>testca.com\<close>.
\<close>

lemma parseCAA_testca:
  \<open>caa_wire 0 ''issue'' ''testca.com'' =
     [0x00, 0x05, 0x69, 0x73, 0x73, 0x75, 0x65, 0x74, 0x65, 0x73, 0x74, 0x63, 0x61, 0x2e,
      0x63, 0x6f, 0x6d] \<and>
   caa_testca = backslash # ''# 17 00 05 69 73 73 75 65 74 65 73 74 63 61 2e 63 6f 6d'' \<and>
   parseCAA caa_testca = ''0 issue "testca.com"''\<close>
proof -
  have "parseCAA ([backslash, CHR ''#''] @ '' '' @ ''17'' @ '' ''
                  @ ''00 05 69 73 73 75 65 74 65 73 74 63 61 2e 63 6f 6d'')
     = decimal 0 @ '' '' @ ''issue'' @ [CHR 0x20, CHR 0x22] @ ''testca.com'' @ [CHR 0x22]"
    by (rule parseCAA_generic_record) code_simp+
  moreover have "decimal 0 = ''0''" by code_simp
  moreover have "caa_wire 0 ''issue'' ''testca.com'' =
     [0x00, 0x05, 0x69, 0x73, 0x73, 0x75, 0x65, 0x74, 0x65, 0x73, 0x74, 0x63, 0x61, 0x2e,
      0x63, 0x6f, 0x6d]"
    by code_simp
  ultimately show ?thesis by (simp add: caa_testca_def del: decimal.simps)
qed

section \<open>Claims about the CAA decoder\<close>

text \<open>
  C1. \<open>parseCAA\<close> does not decode every well-formed generic record. The record with flags
  0, tag \<open>issue\<close> and no value byte, whose wire bytes are 00 05 69 73 73 75 65, is returned
  as it was given and not as \<^verbatim>\<open>0 issue ""\<close>. (Records whose tag and value have at least one
  byte each are decoded as the claim says, see \<open>parseCAA_generic_record\<close>, and so is the
  record of the specification, see \<open>parseCAA_testca\<close>.)
\<close>

theorem parseCAA_empty_value:
  \<open>toLowerCase (remove_whitespace ''00 05 69 73 73 75 65'') = hexDump (caa_wire 0 ''issue'' []) \<and>
   caa_empty_value = [backslash, CHR ''#''] @ '' '' @ ''7'' @ '' '' @ ''00 05 69 73 73 75 65'' \<and>
   parseCAA caa_empty_value = caa_empty_value \<and>
   parseCAA caa_empty_value \<noteq> ''0 issue ""''\<close>
  unfolding caa_empty_value_def by code_simp

text \<open>
  C2 (amended). An input in which the generic-record pattern occurs nowhere is returned
  unchanged. The pattern is not anchored: it is looked for anywhere in the input and need
  not reach the end of it. The input \<^verbatim>\<open>\# 19 0005697373756574657374"ca.com"\<close> of the
  specification has a match, the text before the first quote, and is decoded to
  \<^verbatim>\<open>0 issue "test"\<close>.
\<close>

theorem parseCAA_unmatched_unchanged:
  \<open>(\<not> contains_generic_record s \<longrightarrow> parseCAA s = s) \<and>
   parseCAA caa_quoted = ''0 issue "test"''\<close>
proof
  show "\<not> contains_generic_record s \<longrightarrow> parseCAA s = s"
    by (simp add: parseCAA_def flip: caa_regex_match_None_iff)
  show \<open>parseCAA caa_quoted = ''0 issue "test"''\<close>
    unfolding caa_quoted_def by code_simp
qed

text \<open>A record that a resolver already returned in readable form.\<close>

theorem parseCAA_unmatched_unchanged_witness:
  \<open>caa_readable = ''0 issue "letsencrypt.org"'' \<and>
   \<not> contains_generic_record caa_readable \<and> parseCAA caa_readable = caa_readable\<close>
proof -
  have "caa_regex_match caa_readable = None"
    unfolding caa_readable_def by code_simp
  then have "\<not> contains_generic_record caa_readable"
    by (simp add: caa_regex_match_None_iff)
  with parseCAA_unmatched_unchanged[of caa_readable] show ?thesis
    by (simp add: caa_readable_def)
qed

text \<open>The input of the specification is changed.\<close>

theorem parseCAA_quoted_counterexample:
  \<open>caa_quoted = backslash # ''# 19 0005697373756574657374"ca.com"'' \<and>
   parseCAA caa_quoted \<noteq> caa_quoted\<close>
  unfolding caa_quoted_def by code_simp

text \<open>
  C3. The decoder does not handle zero-length segments. The record with flags 128, an
  empty tag and the value \<open>x\<close> comes back undecoded instead of as \<^verbatim>\<open>128  "x"\<close>, and so
  does the record with flags 0, tag \<open>i\<close> and an empty value, instead of as \<^verbatim>\<open>0 i ""\<close>.
\<close>

theorem parseCAA_zero_length_segments:
  \<open>caa_empty_tag = backslash # ''# 3 80 00 78'' \<and>
   parseCAA caa_empty_tag = caa_empty_tag \<and>
   parseCAA caa_empty_tag \<noteq> ''128  "x"'' \<and>
   caa_one_byte_tag_only = backslash # ''# 3 00 01 69'' \<and>
   parseCAA caa_one_byte_tag_only = caa_one_byte_tag_only \<and>
   parseCAA caa_one_byte_tag_only \<noteq> ''0 i ""''\<close>
  unfolding caa_empty_tag_def caa_one_byte_tag_only_def by code_simp

text \<open>
  C4 (amended). \<open>parseCAA\<close> returns a string on every input: the input itself, or a text of
  the form that the decoder prints, with a flags number below 256. When the tag length
  reaches past the last byte, the input is returned unchanged. A byte length that disagrees
  with the bytes, a hex digit left over after the last complete byte and text after the hex
  digits are not treated as errors: a record with at least one tag byte and one value byte
  is decoded from its complete bytes, whatever the length field, the left-over digit and
  the text after it are.
\<close>

theorem parseCAA_never_throws:
  assumes "ws1 \<noteq> []" "list_all isWhiteSpace ws1"
    and "ds \<noteq> []" "list_all isDigit ds"
    and "ws2 \<noteq> []" "list_all isWhiteSpace ws2"
    and "list_all isHexOrSpace dangling" "length (remove_whitespace dangling) \<le> 1"
    and "rest = [] \<or> \<not> isHexOrSpace (hd rest)"
  shows \<open>(\<forall>s. parseCAA s = s \<or>
            (\<exists>flags tag val. flags < 256 \<and>
               parseCAA s = decimal flags @ '' '' @ tag @ '' "'' @ val @ ''"'')) \<and>
         (toLowerCase (remove_whitespace body) = hexDump (caa_wire flags tag val) \<and>
          flags < 256 \<and> length tag < 256 \<and> tag \<noteq> [] \<and> val \<noteq> [] \<longrightarrow>
            parseCAA ([backslash, CHR ''#''] @ ws1 @ ds @ ws2 @ body @ dangling @ rest) =
              decimal flags @ '' '' @ tag @ '' "'' @ val @ ''"'') \<and>
         (toLowerCase (remove_whitespace body') = hexDump (flags' # n # partial) \<and>
          flags' < 256 \<and> n < 256 \<and> list_all (\<lambda>b. b < 256) partial \<and> length partial < n \<longrightarrow>
            parseCAA ([backslash, CHR ''#''] @ ws1 @ ds @ ws2 @ body' @ dangling @ rest) =
              [backslash, CHR ''#''] @ ws1 @ ds @ ws2 @ body' @ dangling @ rest)\<close>
proof (intro conjI allI impI)
  fix s
  show \<open>parseCAA s = s \<or>
        (\<exists>flags tag val. flags < 256 \<and>
           parseCAA s = decimal flags @ '' '' @ tag @ '' "'' @ val @ ''"'')\<close>
    by (rule parseCAA_result)
next
  assume "toLowerCase (remove_whitespace body) = hexDump (caa_wire flags tag val) \<and>
          flags < 256 \<and> length tag < 256 \<and> tag \<noteq> [] \<and> val \<noteq> []"
  then show \<open>parseCAA ([backslash, CHR ''#''] @ ws1 @ ds @ ws2 @ body @ dangling @ rest) =
              decimal flags @ '' '' @ tag @ '' "'' @ val @ ''"''\<close>
    using parseCAA_lenient[OF assms(1-6) _ _ _ _ _ assms(7-9), of body flags tag val] by blast
next
  assume "toLowerCase (remove_whitespace body') = hexDump (flags' # n # partial) \<and>
          flags' < 256 \<and> n < 256 \<and> list_all (\<lambda>b. b < 256) partial \<and> length partial < n"
  then show "parseCAA ([backslash, CHR ''#''] @ ws1 @ ds @ ws2 @ body' @ dangling @ rest) =
              [backslash, CHR ''#''] @ ws1 @ ds @ ws2 @ body' @ dangling @ rest"
    using parseCAA_tag_past_end[OF assms(1-6) _ _ _ _ _ assms(7-9), of body' flags' n partial]
    by (simp add: list_all_iff)
qed

text \<open>
  After a byte length of 99: the bytes 00 01 69 74, a left-over digit 6 and the text
  \<open>zz\<close> are decoded to flags 0, tag \<open>i\<close>, value \<open>t\<close>; the bytes 00 ff 69, whose tag
  length is 255, come back as they were given.
\<close>

theorem parseCAA_never_throws_witness:
  \<open>caa_lenient = backslash # ''# 99 00 01 69 74 6zz'' \<and>
   parseCAA caa_lenient = ''0 i "t"'' \<and>
   caa_tag_past_end = backslash # ''# 99 00ff69 6zz'' \<and>
   parseCAA caa_tag_past_end = caa_tag_past_end\<close>
proof -
  have h: "'' '' \<noteq> []" "list_all isWhiteSpace '' ''" "''99'' \<noteq> []" "list_all isDigit ''99''"
    "'' '' \<noteq> []" "list_all isWhiteSpace '' ''"
    "list_all isHexOrSpace '' 6''" "length (remove_whitespace '' 6'') \<le> 1"
    "''zz'' = [] \<or> \<not> isHexOrSpace (hd ''zz'')"
    by code_simp+
  have a: "toLowerCase (remove_whitespace ''00 01 69 74'') = hexDump (caa_wire 0 ''i'' ''t'') \<and>
          (0::nat) < 256 \<and> length ''i'' < 256 \<and> ''i'' \<noteq> [] \<and> ''t'' \<noteq> []"
    by code_simp
  have b: "toLowerCase (remove_whitespace ''00ff69'') = hexDump (0 # 255 # [105]) \<and>
          (0::nat) < 256 \<and> (255::nat) < 256 \<and> list_all (\<lambda>b. b < 256) [105::nat] \<and>
          length [105::nat] < 255"
    by code_simp
  note t = parseCAA_never_throws[OF h, of "''00 01 69 74''" 0 "''i''" "''t''" "''00ff69''" 0 255 "[105]"]
  from t a have 1: "parseCAA ([backslash, CHR ''#''] @ '' '' @ ''99'' @ '' '' @ ''00 01 69 74'' @ '' 6'' @ ''zz'')
      = decimal 0 @ '' '' @ ''i'' @ [CHR 0x20, CHR 0x22] @ ''t'' @ [CHR 0x22]"
    by blast
  from t b have 2: "parseCAA ([backslash, CHR ''#''] @ '' '' @ ''99'' @ '' '' @ ''00ff69'' @ '' 6'' @ ''zz'')
      = [backslash, CHR ''#''] @ '' '' @ ''99'' @ '' '' @ ''00ff69'' @ '' 6'' @ ''zz''"
    by blast
  have d: "decimal 0 = ''0''" by code_simp
  from 1 2 show ?thesis
    by (simp add: caa_lenient_def caa_tag_past_end_def d del: decimal.simps)
qed

text \<open>
  Nine hex digits after a byte length of 4: the hex text has odd length and disagrees with
  the length field, and the record is decoded all the same, without its last digit.
\<close>

theorem parseCAA_odd_hex_counterexample:
  \<open>caa_odd_hex = backslash # ''# 4 000169746'' \<and>
   odd (length (remove_whitespace ''000169746'')) \<and>
   parseCAA caa_odd_hex = ''0 i "t"'' \<and>
   parseCAA caa_odd_hex \<noteq> caa_odd_hex\<close>
  unfolding caa_odd_hex_def by code_simp

section \<open>Properties of the lookup\<close>

subsection \<open>One query\<close>

lemma queryDNS_eq:
  "queryDNS fetch recordDomain recordType providerUrl reqs =
     (query_result fetch providerUrl recordDomain recordType,
      reqs @ issued providerUrl recordDomain recordType)"
  by (simp add: queryDNS_def query_result_def issued_def Let_def
      split: option.splits fetch_result.splits)

text \<open>
  A query to an endpoint fails when \<^verbatim>\<open>fetch\<close> rejects, when the status is not 2xx, and
  when the body is not JSON.
\<close>

lemma query_fails_iff:
  "query_fails fetch (Some u) recordDomain recordType \<longleftrightarrow>
     (let url = \<lparr>endpoint = u, qname = recordDomain, qtype = recordType\<rparr>
      in fetch url = Rejected \<or>
         (\<exists>status body. fetch url = Response status body \<and>
            (status < 200 \<or> 299 < status \<or> body = None)))"
  by (auto simp: query_fails_def query_result_def queryDNS_def Let_def
      split: fetch_result.splits option.splits)

lemma obtained_Nil_if_fails:
  "query_fails fetch providerUrl recordDomain recordType \<Longrightarrow>
   obtained fetch providerUrl recordDomain recordType = []"
  by (auto simp: query_fails_def obtained_def isl_def)

lemma query_fails_no_endpoint: "query_fails fetch None recordDomain recordType"
  by (simp add: query_fails_def query_result_def queryDNS_def)

lemma assign_fresh: "k \<notin> fst ` set obj \<Longrightarrow> assign k v obj = obj @ [(k, v)]"
  unfolding assign_def by (induction obj) auto

subsection \<open>The first loop\<close>

lemma usualResults_query_usual:
  "usualResults (query_usual fetch prov clean providerUrl ty r) =
     (if obtained fetch providerUrl clean ty \<noteq> []
      then assign ty (as_stored prov ty (obtained fetch providerUrl clean ty)) (usualResults r)
      else usualResults r)"
  by (simp add: query_usual_def queryDNS_eq obtained_def as_stored_def
      split: sum.splits option.splits)

lemma emailSecurityResults_query_usual:
  "emailSecurityResults (query_usual fetch prov clean providerUrl ty r) = emailSecurityResults r"
  by (simp add: query_usual_def queryDNS_eq split: sum.splits option.splits)

lemma sent_query_usual:
  "sent (query_usual fetch prov clean providerUrl ty r) = sent r @ issued providerUrl clean ty"
  by (simp add: query_usual_def queryDNS_eq split: sum.splits option.splits)

lemma diagnostics_query_usual:
  "diagnostics (query_usual fetch prov clean providerUrl ty r) =
     diagnostics r @
     (case query_result fetch providerUrl clean ty of
        Inl err \<Rightarrow> [(''Error querying '' @ ty @ '':'', err)]
      | Inr json \<Rightarrow> [])"
  by (simp add: query_usual_def queryDNS_eq split: sum.splits option.splits)

lemma usualResults_fold:
  "distinct tys \<Longrightarrow> set tys \<inter> fst ` set (usualResults r) = {} \<Longrightarrow>
   usualResults (fold (query_usual fetch prov clean providerUrl) tys r) =
     usualResults r @
     map (\<lambda>ty. (ty, as_stored prov ty (obtained fetch providerUrl clean ty)))
       (filter (\<lambda>ty. obtained fetch providerUrl clean ty \<noteq> []) tys)"
proof (induction tys arbitrary: r)
  case Nil
  then show ?case by simp
next
  case (Cons ty tys)
  let ?r = "query_usual fetch prov clean providerUrl ty r"
  from Cons.prems have fresh: "ty \<notin> fst ` set (usualResults r)" by auto
  have step: "usualResults ?r =
      usualResults r @ (if obtained fetch providerUrl clean ty \<noteq> []
                        then [(ty, as_stored prov ty (obtained fetch providerUrl clean ty))] else [])"
    by (simp add: usualResults_query_usual assign_fresh[OF fresh])
  have "set tys \<inter> fst ` set (usualResults ?r) = {}"
    using Cons.prems unfolding step by auto
  with Cons.prems have "usualResults (fold (query_usual fetch prov clean providerUrl) tys ?r) =
     usualResults ?r @
     map (\<lambda>ty. (ty, as_stored prov ty (obtained fetch providerUrl clean ty)))
       (filter (\<lambda>ty. obtained fetch providerUrl clean ty \<noteq> []) tys)"
    by (intro Cons.IH) simp_all
  then show ?case by (simp add: step)
qed

lemma emailSecurityResults_fold_usual:
  "emailSecurityResults (fold (query_usual fetch prov clean providerUrl) tys r) =
     emailSecurityResults r"
  by (induction tys arbitrary: r) (simp_all add: emailSecurityResults_query_usual)

lemma sent_fold_usual:
  "sent (fold (query_usual fetch prov clean providerUrl) tys r) =
     sent r @ concat (map (issued providerUrl clean) tys)"
  by (induction tys arbitrary: r) (simp_all add: sent_query_usual)

lemma diagnostics_fold_usual:
  "diagnostics (fold (query_usual fetch prov clean providerUrl) tys r) =
     diagnostics r @
     concat (map (\<lambda>ty. case query_result fetch providerUrl clean ty of
                          Inl err \<Rightarrow> [(''Error querying '' @ ty @ '':'', err)]
                        | Inr json \<Rightarrow> []) tys)"
  by (induction tys arbitrary: r) (simp_all add: diagnostics_query_usual)

subsection \<open>The second loop\<close>

lemma emailSecurityResults_query_emailSecurity:
  "emailSecurityResults (query_emailSecurity fetch clean providerUrl p r) =
     (if obtained fetch providerUrl (name p @ ''.'' @ clean) (type p) \<noteq> []
      then assign (label p) (obtained fetch providerUrl (name p @ ''.'' @ clean) (type p))
             (emailSecurityResults r)
      else emailSecurityResults r)"
  by (simp add: query_emailSecurity_def queryDNS_eq obtained_def Let_def
      split: sum.splits option.splits)

lemma usualResults_query_emailSecurity:
  "usualResults (query_emailSecurity fetch clean providerUrl p r) = usualResults r"
  by (simp add: query_emailSecurity_def queryDNS_eq Let_def split: sum.splits option.splits)

lemma sent_query_emailSecurity:
  "sent (query_emailSecurity fetch clean providerUrl p r) =
     sent r @ issued providerUrl (name p @ ''.'' @ clean) (type p)"
  by (simp add: query_emailSecurity_def queryDNS_eq Let_def split: sum.splits option.splits)

lemma diagnostics_query_emailSecurity:
  "diagnostics (query_emailSecurity fetch clean providerUrl p r) =
     diagnostics r @
     (case query_result fetch providerUrl (name p @ ''.'' @ clean) (type p) of
        Inl err \<Rightarrow> [(''Error querying '' @ label p @ '':'', err)]
      | Inr json \<Rightarrow> [])"
  by (simp add: query_emailSecurity_def queryDNS_eq Let_def split: sum.splits option.splits)

lemma emailSecurityResults_fold:
  "distinct (map label ps) \<Longrightarrow> label ` set ps \<inter> fst ` set (emailSecurityResults r) = {} \<Longrightarrow>
   emailSecurityResults (fold (query_emailSecurity fetch clean providerUrl) ps r) =
     emailSecurityResults r @
     map (\<lambda>p. (label p, obtained fetch providerUrl (name p @ ''.'' @ clean) (type p)))
       (filter (\<lambda>p. obtained fetch providerUrl (name p @ ''.'' @ clean) (type p) \<noteq> []) ps)"
proof (induction ps arbitrary: r)
  case Nil
  then show ?case by simp
next
  case (Cons p ps)
  let ?r = "query_emailSecurity fetch clean providerUrl p r"
  from Cons.prems have fresh: "label p \<notin> fst ` set (emailSecurityResults r)" by auto
  have step: "emailSecurityResults ?r =
      emailSecurityResults r @
      (if obtained fetch providerUrl (name p @ ''.'' @ clean) (type p) \<noteq> []
       then [(label p, obtained fetch providerUrl (name p @ ''.'' @ clean) (type p))] else [])"
    by (simp add: emailSecurityResults_query_emailSecurity assign_fresh[OF fresh])
  have "label ` set ps \<inter> fst ` set (emailSecurityResults ?r) = {}"
    using Cons.prems unfolding step by (auto simp: image_iff)
  with Cons.prems have "emailSecurityResults (fold (query_emailSecurity fetch clean providerUrl) ps ?r) =
     emailSecurityResults ?r @
     map (\<lambda>p. (label p, obtained fetch providerUrl (name p @ ''.'' @ clean) (type p)))
       (filter (\<lambda>p. obtained fetch providerUrl (name p @ ''.'' @ clean) (type p) \<noteq> []) ps)"
    by (intro Cons.IH) simp_all
  then show ?case by (simp add: step)
qed

lemma usualResults_fold_emailSecurity:
  "usualResults (fold (query_emailSecurity fetch clean providerUrl) ps r) = usualResults r"
  by (induction ps arbitrary: r) (simp_all add: usualResults_query_emailSecurity)

lemma sent_fold_emailSecurity:
  "sent (fold (query_emailSecurity fetch clean providerUrl) ps r) =
     sent r @ concat (map (\<lambda>p. issued providerUrl (name p @ ''.'' @ clean) (type p)) ps)"
  by (induction ps arbitrary: r) (simp_all add: sent_query_emailSecurity)

lemma diagnostics_fold_emailSecurity:
  "diagnostics (fold (query_emailSecurity fetch clean providerUrl) ps r) =
     diagnostics r @
     concat (map (\<lambda>p. case query_result fetch providerUrl (name p @ ''.'' @ clean) (type p) of
                         Inl err \<Rightarrow> [(''Error querying '' @ label p @ '':'', err)]
                       | Inr json \<Rightarrow> []) ps)"
  by (induction ps arbitrary: r) (simp_all add: diagnostics_query_emailSecurity)

subsection \<open>The SPF filter\<close>

lemma js_includes_iff: "js_includes s sub \<longleftrightarrow> (\<exists>pre post. s = pre @ sub @ post)"
proof (induction s)
  case Nil
  then show ?case by simp
next
  case (Cons c s)
  have "(\<exists>pre post. c # s = pre @ sub @ post) \<longleftrightarrow>
        (\<exists>post. c # s = sub @ post) \<or> (\<exists>pre post. s = pre @ sub @ post)"
    by (auto simp: Cons_eq_append_conv)
  with Cons.IH show ?case by (simp add: prefix_def)
qed

lemma mentions_spf1_code:
  "mentions_spf1 d \<longleftrightarrow> d \<noteq> [] \<and> js_includes (toLowerCase d) ''v=spf1''"
  unfolding mentions_spf1_def js_includes_iff
  by (auto simp: toLowerCase_def)

lemma extract_spf_fields:
  "usualResults (extract_spf r) = usualResults r"
  "sent (extract_spf r) = sent r"
  "diagnostics (extract_spf r) = diagnostics r"
  by (simp_all add: extract_spf_def Let_def split: option.splits)

lemma emailSecurityResults_extract_spf:
  "emailSecurityResults r = [] \<Longrightarrow>
   emailSecurityResults (extract_spf r) = spf_entries (usualResults r)"
  by (simp add: extract_spf_def spf_entries_def Let_def assign_def mentions_spf1_code
      split: option.splits)

lemma fst_spf_entries: "fst ` set (spf_entries obj) \<subseteq> {''SPF (TXT)''}"
  by (auto simp: spf_entries_def split: option.splits if_splits)

subsection \<open>The whole lookup\<close>

lemma distinct_usual: "distinct RECORD_TYPES_usual"
  by (simp add: RECORD_TYPES_usual_def)

lemma distinct_labels: "distinct (map label RECORD_TYPES_emailSecurity)"
  by (simp add: RECORD_TYPES_emailSecurity_def)

lemma labels_not_spf: "''SPF (TXT)'' \<notin> label ` set RECORD_TYPES_emailSecurity"
  by (simp add: RECORD_TYPES_emailSecurity_def)

lemma handleLookup_valid:
  assumes "trim (domain s) \<noteq> []"
  shows "handleLookup fetch s =
           s\<lparr>loading := False, error := [],
             results := Some (expected_result fetch (provider s) (cleanDomain (domain s))),
             requests := requests s @ lookup_requests (provider s) (cleanDomain (domain s)),
             console := console s @ lookup_diagnostics fetch (provider s) (cleanDomain (domain s)),
             history := history s @ [(cleanDomain (domain s), provider s)]\<rparr>"
proof -
  let ?clean = "cleanDomain (domain s)"
  let ?prov = "provider s"
  let ?pu = "PROVIDERS ?prov"
  let ?r0 = "\<lparr>usualResults = [], emailSecurityResults = [],
              sent = requests s, diagnostics = console s\<rparr>"
  let ?r1 = "fold (query_usual fetch ?prov ?clean ?pu) RECORD_TYPES_usual ?r0"
  let ?r2 = "extract_spf ?r1"
  let ?r3 = "fold (query_emailSecurity fetch ?clean ?pu) RECORD_TYPES_emailSecurity ?r2"
  have u1: "usualResults ?r1 = usual_entries fetch ?prov ?clean"
    using usualResults_fold[OF distinct_usual, of ?r0 fetch ?prov ?clean ?pu]
    by (simp add: usual_entries_def)
  have e1: "emailSecurityResults ?r1 = []"
    by (simp add: emailSecurityResults_fold_usual)
  have e2: "emailSecurityResults ?r2 = spf_entries (usual_entries fetch ?prov ?clean)"
    using emailSecurityResults_extract_spf[OF e1] by (simp add: u1)
  have "label ` set RECORD_TYPES_emailSecurity \<inter> fst ` set (emailSecurityResults ?r2) = {}"
    unfolding e2 using fst_spf_entries[of "usual_entries fetch ?prov ?clean"] labels_not_spf
    by (auto simp: image_iff subset_iff) (metis fst_conv)
  from emailSecurityResults_fold[OF distinct_labels this, of fetch ?clean ?pu]
  have e3: "emailSecurityResults ?r3 =
      spf_entries (usual_entries fetch ?prov ?clean) @ probe_entries fetch ?prov ?clean"
    by (simp add: e2 probe_entries_def)
  have u3: "usualResults ?r3 = usual_entries fetch ?prov ?clean"
    by (simp add: usualResults_fold_emailSecurity extract_spf_fields u1)
  have s3: "sent ?r3 = requests s @ lookup_requests ?prov ?clean"
    by (simp add: sent_fold_emailSecurity extract_spf_fields sent_fold_usual lookup_requests_def)
  have d3: "diagnostics ?r3 = console s @ lookup_diagnostics fetch ?prov ?clean"
    by (simp add: diagnostics_fold_emailSecurity extract_spf_fields diagnostics_fold_usual
        lookup_diagnostics_def)
  show ?thesis
    using assms unfolding handleLookup_def Let_def
    by (simp add: u3 e3 s3 d3 expected_result_def)
qed

lemma handleLookup_invalid:
  "trim (domain s) = [] \<Longrightarrow> handleLookup fetch s = s\<lparr>error := ''Please enter a domain name''\<rparr>"
  by (simp add: handleLookup_def)

subsection \<open>The entries of a result\<close>

lemma length_as_stored: "length (as_stored prov ty answer) = length answer"
  by (simp add: as_stored_def)

lemma as_stored_Nil_iff: "as_stored prov ty answer = [] \<longleftrightarrow> answer = []"
  using length_as_stored[of prov ty answer] by (metis length_0_conv)

lemma map_of_usual_entries:
  "map_of (usual_entries fetch prov clean) ty =
     (if ty \<in> set RECORD_TYPES_usual \<and> obtained fetch (PROVIDERS prov) clean ty \<noteq> []
      then Some (as_stored prov ty (obtained fetch (PROVIDERS prov) clean ty)) else None)"
  unfolding usual_entries_def
  by (simp add: map_of_map_restrict restrict_map_def)

lemma keys_usual_entries:
  "fst ` set (usual_entries fetch prov clean) =
     {ty \<in> set RECORD_TYPES_usual. obtained fetch (PROVIDERS prov) clean ty \<noteq> []}"
  unfolding usual_entries_def by (auto simp: image_iff)

lemma keys_probe_entries:
  "fst ` set (probe_entries fetch prov clean) =
     {label p |p. p \<in> set RECORD_TYPES_emailSecurity \<and>
        obtained fetch (PROVIDERS prov) (name p @ ''.'' @ clean) (type p) \<noteq> []}"
  unfolding probe_entries_def by (auto simp: image_iff)

lemma map_of_labelled:
  "distinct (map label ps) \<Longrightarrow> p \<in> set ps \<Longrightarrow>
   map_of (map (\<lambda>p. (label p, g p)) (filter P ps)) (label p) = (if P p then Some (g p) else None)"
proof (induction ps)
  case Nil
  then show ?case by simp
next
  case (Cons q ps)
  show ?case
  proof (cases "p = q")
    case True
    have "map_of (map (\<lambda>p. (label p, g p)) (filter P ps)) (label q) = None"
      using Cons.prems(1) by (auto simp: map_of_eq_None_iff image_iff)
    with True show ?thesis by simp
  next
    case False
    with Cons.prems have "p \<in> set ps" "label q \<noteq> label p" by (auto simp: image_iff)
    with Cons show ?thesis by simp
  qed
qed

lemma map_of_probe_entries:
  "p \<in> set RECORD_TYPES_emailSecurity \<Longrightarrow>
   map_of (probe_entries fetch prov clean) (label p) =
     (if obtained fetch (PROVIDERS prov) (name p @ ''.'' @ clean) (type p) \<noteq> []
      then Some (obtained fetch (PROVIDERS prov) (name p @ ''.'' @ clean) (type p)) else None)"
  unfolding probe_entries_def
  by (rule map_of_labelled[OF distinct_labels])

lemma values_usual_entries: "(k, v) \<in> set (usual_entries fetch prov clean) \<Longrightarrow> v \<noteq> []"
  unfolding usual_entries_def by (auto simp: as_stored_Nil_iff)

lemma values_probe_entries: "(k, v) \<in> set (probe_entries fetch prov clean) \<Longrightarrow> v \<noteq> []"
  unfolding probe_entries_def by auto

lemma values_spf_entries: "(k, v) \<in> set (spf_entries obj) \<Longrightarrow> v \<noteq> []"
  unfolding spf_entries_def by (auto split: option.splits if_splits)

lemma keys_spf_entries:
  "fst ` set (spf_entries obj) =
     (if \<exists>txt. map_of obj ''TXT'' = Some txt \<and> (\<exists>r\<in>set txt. mentions_spf1 (data r))
      then {''SPF (TXT)''} else {})"
proof (cases "map_of obj ''TXT''")
  case None
  then show ?thesis by (simp add: spf_entries_def)
next
  case (Some records)
  then show ?thesis by (simp add: spf_entries_def filter_empty_conv)
qed

lemma map_of_spf_entries:
  "map_of (spf_entries obj) ''SPF (TXT)'' =
     (case map_of obj ''TXT'' of
        None \<Rightarrow> None
      | Some txt \<Rightarrow>
          (if filter (\<lambda>record. mentions_spf1 (data record)) txt = [] then None
           else Some (filter (\<lambda>record. mentions_spf1 (data record)) txt)))"
  unfolding spf_entries_def by (simp split: option.splits)

lemma map_of_probe_entries_spf: "map_of (probe_entries fetch prov clean) ''SPF (TXT)'' = None"
  using labels_not_spf by (auto simp: map_of_eq_None_iff keys_probe_entries)

lemma map_of_spf_entries_label:
  "p \<in> set RECORD_TYPES_emailSecurity \<Longrightarrow> map_of (spf_entries obj) (label p) = None"
  using labels_not_spf fst_spf_entries[of obj]
  by (auto simp: map_of_eq_None_iff image_iff subset_iff) (metis fst_conv)

lemma usual_TXT:
  "map_of (usual_entries fetch prov clean) ''TXT'' =
     (if obtained fetch (PROVIDERS prov) clean ''TXT'' \<noteq> []
      then Some (obtained fetch (PROVIDERS prov) clean ''TXT'') else None)"
  by (simp add: map_of_usual_entries as_stored_def RECORD_TYPES_usual_def)

subsection \<open>Failing queries\<close>

lemma length_lookup_requests:
  "PROVIDERS prov \<noteq> None \<Longrightarrow> length (lookup_requests prov clean) = 13"
  by (auto simp: lookup_requests_def issued_def RECORD_TYPES_usual_def
      RECORD_TYPES_emailSecurity_def)

lemma usual_entries_all_fail:
  "\<forall>ty\<in>set RECORD_TYPES_usual. query_fails fetch (PROVIDERS prov) clean ty \<Longrightarrow>
   usual_entries fetch prov clean = []"
  by (simp add: usual_entries_def obtained_Nil_if_fails filter_empty_conv)

lemma probe_entries_all_fail:
  "\<forall>p\<in>set RECORD_TYPES_emailSecurity.
      query_fails fetch (PROVIDERS prov) (name p @ ''.'' @ clean) (type p) \<Longrightarrow>
   probe_entries fetch prov clean = []"
  by (simp add: probe_entries_def obtained_Nil_if_fails filter_empty_conv)

lemma spf_entries_Nil: "spf_entries [] = []"
  by (simp add: spf_entries_def)

lemma map_of_emailSecurity_label:
  "p \<in> set RECORD_TYPES_emailSecurity \<Longrightarrow>
   map_of (spf_entries obj @ probe_entries fetch prov clean) (label p) =
     (if obtained fetch (PROVIDERS prov) (name p @ ''.'' @ clean) (type p) \<noteq> []
      then Some (obtained fetch (PROVIDERS prov) (name p @ ''.'' @ clean) (type p)) else None)"
  by (simp add: map_add_def map_of_probe_entries map_of_spf_entries_label)

subsection \<open>No endpoint\<close>

lemma usual_entries_no_endpoint: "PROVIDERS prov = None \<Longrightarrow> usual_entries fetch prov clean = []"
  by (rule usual_entries_all_fail) (simp add: query_fails_no_endpoint)

lemma probe_entries_no_endpoint: "PROVIDERS prov = None \<Longrightarrow> probe_entries fetch prov clean = []"
  by (rule probe_entries_all_fail) (simp add: query_fails_no_endpoint)

lemma lookup_requests_no_endpoint: "PROVIDERS prov = None \<Longrightarrow> lookup_requests prov clean = []"
  by (simp add: lookup_requests_def issued_def)

lemma lookup_diagnostics_no_endpoint:
  "PROVIDERS prov = None \<Longrightarrow>
   lookup_diagnostics fetch prov clean =
     map (\<lambda>ty. (''Error querying '' @ ty @ '':'', TypeError)) RECORD_TYPES_usual @
     map (\<lambda>p. (''Error querying '' @ label p @ '':'', TypeError)) RECORD_TYPES_emailSecurity"
  by (simp add: lookup_diagnostics_def query_result_def queryDNS_def concat_map_singleton)

lemma qname_lookup_requests:
  "rq \<in> set (lookup_requests prov clean) \<Longrightarrow>
   qname rq = clean \<or> (\<exists>p\<in>set RECORD_TYPES_emailSecurity. qname rq = name p @ ''.'' @ clean)"
  by (auto simp: lookup_requests_def issued_def split: option.splits)

subsection \<open>Normalising the domain\<close>

lemma toLowerCase_append: "toLowerCase (s @ t) = toLowerCase s @ toLowerCase t"
  by (simp add: toLowerCase_def)

lemma lowerChar_slash: "lowerChar c = CHR ''/'' \<longleftrightarrow> c = CHR ''/''"
proof
  assume "lowerChar c = CHR ''/''"
  then have "code (lowerChar c) = 47" by (simp add: code_def)
  then have "code c = 47" by (auto simp: code_lowerChar split: if_splits)
  then show "c = CHR ''/''" by (intro code_inject) (simp add: code_def)
next
  assume "c = CHR ''/''"
  then show "lowerChar c = CHR ''/''" by (simp add: lowerChar_def code_def)
qed

lemma dropWhile_last:
  assumes "s \<noteq> []" "\<not> P (last s)"
  shows "dropWhile P s \<noteq> []" "last (dropWhile P s) = last s"
proof -
  from assms have "last s \<in> set s" "\<not> P (last s)" by simp_all
  then show ne: "dropWhile P s \<noteq> []" by (auto simp: dropWhile_eq_Nil_conv)
  have "s = takeWhile P s @ dropWhile P s" by simp
  with ne show "last (dropWhile P s) = last s" by (metis last_appendR)
qed

lemma trim_no_trailing:
  assumes "s \<noteq> []" "\<not> isWhiteSpace (last s)"
  shows "trim s = dropWhile isWhiteSpace s"
proof -
  let ?t = "dropWhile isWhiteSpace s"
  from dropWhile_last[of s isWhiteSpace, OF assms] have t: "?t \<noteq> []" "\<not> isWhiteSpace (last ?t)"
    using assms by simp_all
  then have "dropWhile isWhiteSpace (rev ?t) = rev ?t"
    by (cases "rev ?t") (auto simp: last_rev hd_rev[symmetric] dest!: arg_cong[of "rev _" _ hd])
  then show ?thesis by (simp add: trim_def)
qed

lemma strip_scheme_slash:
  assumes "x \<noteq> []" "last x \<noteq> CHR ''/''"
  shows "strip_scheme (x @ ''/'') = strip_scheme x @ ''/''"
proof -
  have a: "prefix ''http://'' (x @ ''/'') \<longleftrightarrow> prefix ''http://'' x"
  proof -
    have "''http://'' \<noteq> x @ ''/''"
      using assms by (metis butlast_snoc last_snoc last.simps butlast.simps list.distinct(1))
    then show ?thesis by (simp add: prefix_snoc)
  qed
  have b: "prefix ''https://'' (x @ ''/'') \<longleftrightarrow> prefix ''https://'' x"
  proof -
    have "''https://'' \<noteq> x @ ''/''"
      using assms by (metis butlast_snoc last_snoc last.simps butlast.simps list.distinct(1))
    then show ?thesis by (simp add: prefix_snoc)
  qed
  have l7: "prefix ''http://'' x \<Longrightarrow> 7 \<le> length x"
    by (auto simp: prefix_def)
  have l8: "prefix ''https://'' x \<Longrightarrow> 8 \<le> length x"
    by (auto simp: prefix_def)
  show ?thesis
    unfolding strip_scheme_def a b using l7 l8 by auto
qed

lemma strip_slash_snoc: "strip_slash (y @ ''/'') = y"
  by (simp add: strip_slash_def)

lemma strip_slash_strip_scheme:
  assumes "x = [] \<or> last x \<noteq> CHR ''/''"
  shows "strip_slash (strip_scheme x) = strip_scheme x"
proof -
  have "drop k x = [] \<or> last (drop k x) \<noteq> CHR ''/''" for k
    using assms by (cases "k < length x") auto
  then show ?thesis
    unfolding strip_slash_def strip_scheme_def using assms by auto
qed

lemma isWhiteSpace_lowerChar: "isWhiteSpace (lowerChar c) = isWhiteSpace c"
  by (auto simp: isWhiteSpace_def code_lowerChar)

lemma dropWhile_toLowerCase:
  "dropWhile isWhiteSpace (toLowerCase s) = toLowerCase (dropWhile isWhiteSpace s)"
  by (simp add: toLowerCase_def dropWhile_map o_def isWhiteSpace_lowerChar)

lemma toLowerCase_slash: "toLowerCase ''/'' = ''/''"
  by (simp add: toLowerCase_def lowerChar_slash)

text \<open>Upper-casing changes the case of letters only, unless there is a sharp s.\<close>

lemma upperChar_recased:
  assumes "upperChar c = Some w" "c \<noteq> sharp_s"
  shows "\<exists>c'. w = [c'] \<and> lowerChar c' = lowerChar c"
proof (cases "(97 \<le> code c \<and> code c \<le> 122) \<or> (224 \<le> code c \<and> code c \<le> 254 \<and> code c \<noteq> 247)")
  case True
  with assms have w: "w = [char_of (code c - 32)]"
    by (auto simp: upperChar_def split: if_splits)
  have "code (char_of (code c - 32)) = code c - 32"
    using code_less_256[of c] by (simp add: code_char_of)
  then have "lowerChar (char_of (code c - 32)) = lowerChar c"
    using True by (intro code_inject) (auto simp: code_lowerChar)
  with w show ?thesis by simp
next
  case False
  with assms have "w = [c]"
    by (auto simp: upperChar_def split: if_splits)
  then show ?thesis by simp
qed

lemma toUpperCase_recased:
  "toUpperCase d = Some u \<Longrightarrow> sharp_s \<notin> set d \<Longrightarrow> toLowerCase u = toLowerCase d"
proof (induction d arbitrary: u)
  case Nil
  then show ?case by simp
next
  case (Cons c d)
  from Cons.prems(1) obtain w t where w: "upperChar c = Some w" and t: "toUpperCase d = Some t"
    and u: "u = w @ t"
    by (auto split: option.splits)
  from upperChar_recased[OF w] Cons.prems(2) obtain c' where "w = [c']" "lowerChar c' = lowerChar c"
    by auto
  moreover from Cons.IH[OF t] Cons.prems(2) have "toLowerCase t = toLowerCase d" by simp
  ultimately show ?case by (simp add: u toLowerCase_def)
qed

lemma recased_last:
  assumes "toLowerCase u = toLowerCase d" "d \<noteq> []"
  shows "u \<noteq> []" "lowerChar (last u) = lowerChar (last d)"
proof -
  from assms show ne: "u \<noteq> []" by (auto simp: toLowerCase_def)
  from assms ne have "last (map lowerChar u) = last (map lowerChar d)"
    by (simp add: toLowerCase_def)
  with assms(2) ne show "lowerChar (last u) = lowerChar (last d)"
    by (simp add: last_map)
qed

lemma trim_padded:
  assumes "u \<noteq> []" "\<not> isWhiteSpace (last u)"
  shows "trim (padded u) = dropWhile isWhiteSpace u @ ''/''"
proof -
  let ?X = "dropWhile isWhiteSpace u"
  have sp: "isWhiteSpace CHR '' ''" and sl: "\<not> isWhiteSpace CHR ''/''"
    by (simp_all add: isWhiteSpace_def code_def)
  have "last u \<in> set u" "\<not> isWhiteSpace (last u)"
    using assms by simp_all
  then have "dropWhile isWhiteSpace (u @ ''/ '') = ?X @ ''/ ''"
    by (rule dropWhile_append1)
  then have 1: "dropWhile isWhiteSpace (padded u) = ?X @ ''/ ''"
    by (simp add: padded_def sp)
  have "dropWhile isWhiteSpace (rev (?X @ ''/ '')) = CHR ''/'' # rev ?X"
    by (simp add: sp sl)
  then show ?thesis
    unfolding trim_def 1 by simp
qed

text \<open>
  A domain and a re-cased copy of it, padded: the same normal form, when the domain does
  not end in white space or in a slash.
\<close>

lemma cleanDomain_padded:
  assumes "toLowerCase u = toLowerCase d"
    and "d \<noteq> []" "\<not> isWhiteSpace (last d)" "last d \<noteq> CHR ''/''"
  shows "cleanDomain (padded u) = cleanDomain d"
    and "trim (padded u) \<noteq> []" and "trim d \<noteq> []"
proof -
  let ?t = "dropWhile isWhiteSpace d"
  let ?x = "toLowerCase ?t"
  note r = recased_last[OF assms(1,2)]
  have uws: "\<not> isWhiteSpace (last u)"
    using r(2) assms(3) by (metis isWhiteSpace_lowerChar)
  from dropWhile_last[of d isWhiteSpace, OF assms(2,3)] have t: "?t \<noteq> []" "last ?t = last d"
    by simp_all
  then have x: "?x \<noteq> []" "last ?x \<noteq> CHR ''/''"
    using assms(4) by (simp_all add: toLowerCase_def last_map lowerChar_slash)
  have "toLowerCase (dropWhile isWhiteSpace u) = ?x"
    using assms(1) by (simp flip: dropWhile_toLowerCase)
  then have "cleanDomain (padded u) = strip_slash (strip_scheme (?x @ ''/''))"
    unfolding cleanDomain_def trim_padded[OF r(1) uws]
    by (simp add: toLowerCase_append toLowerCase_slash)
  also have "\<dots> = strip_scheme ?x"
    unfolding strip_scheme_slash[OF x] by (rule strip_slash_snoc)
  also have "\<dots> = cleanDomain d"
    unfolding cleanDomain_def trim_no_trailing[OF assms(2,3)]
    using strip_slash_strip_scheme[of ?x] x by simp
  finally show "cleanDomain (padded u) = cleanDomain d" .
  show "trim (padded u) \<noteq> []" by (simp add: trim_padded[OF r(1) uws])
  show "trim d \<noteq> []" using t by (simp add: trim_no_trailing[OF assms(2,3)])
qed

text \<open>
  What normalising does, piece by piece: white space around the text goes, a scheme
  \<open>http://\<close> or \<open>https://\<close> in whatever case goes, one slash at the end goes, and what is
  left is put in lower case.
\<close>

lemma trim_around:
  assumes "list_all isWhiteSpace w1" "list_all isWhiteSpace w2"
    and "m \<noteq> []" "\<not> isWhiteSpace (hd m)" "\<not> isWhiteSpace (last m)"
  shows "trim (w1 @ m @ w2) = m"
proof -
  have 1: "dropWhile isWhiteSpace (w1 @ m @ w2) = m @ w2"
    using assms(1,3,4) by (cases m) (simp_all add: dropWhile_append2 list_all_iff)
  have "dropWhile isWhiteSpace (rev w2 @ rev m) = dropWhile isWhiteSpace (rev m)"
    using assms(2) by (intro dropWhile_append2) (simp add: list_all_iff)
  also have "\<dots> = rev m"
    using assms(3,5) by (cases "rev m") (auto simp: last_rev hd_rev[symmetric] dest!: arg_cong[of "rev _" _ hd])
  finally show ?thesis
    unfolding trim_def 1 by simp
qed

lemma strip_scheme_http:
  "toLowerCase sch = ''http://'' \<or> toLowerCase sch = ''https://'' \<Longrightarrow>
   strip_scheme (toLowerCase sch @ y) = y"
  by (auto simp: strip_scheme_def)

lemma cleanDomain_scheme:
  assumes w: "list_all isWhiteSpace w1" "list_all isWhiteSpace w2"
    and sch: "toLowerCase sch = ''http://'' \<or> toLowerCase sch = ''https://''"
    and sl: "sl = [] \<or> sl = ''/''"
    and h: "sl = ''/'' \<or> h = [] \<or> (\<not> isWhiteSpace (last h) \<and> last h \<noteq> CHR ''/'')"
  shows "cleanDomain (w1 @ sch @ h @ sl @ w2) = toLowerCase h"
proof -
  let ?m = "sch @ h @ sl"
  from sch obtain c r where s: "sch = c # r" "lowerChar c = CHR ''h''"
    by (cases sch) (auto simp: toLowerCase_def)
  from sch have sne: "sch \<noteq> []" and ls: "lowerChar (last sch) = CHR ''/''"
    by (auto simp: toLowerCase_def last_map[symmetric])
  have hdm: "\<not> isWhiteSpace (hd ?m)"
  proof -
    have "\<not> isWhiteSpace CHR ''h''" by (simp add: isWhiteSpace_def code_def)
    with s(2) isWhiteSpace_lowerChar[of c] have "\<not> isWhiteSpace c" by metis
    then show ?thesis by (simp add: s(1))
  qed
  have sl_ws: "\<not> isWhiteSpace CHR ''/''" by (simp add: isWhiteSpace_def code_def)
  have lastm: "\<not> isWhiteSpace (last ?m)"
    using sl h sne ls sl_ws by (auto simp: lowerChar_slash last_append)
  have "trim (w1 @ ?m @ w2) = ?m"
    by (rule trim_around[OF w _ hdm lastm]) (simp add: sne)
  then have "cleanDomain (w1 @ sch @ h @ sl @ w2) = strip_slash (toLowerCase h @ sl)"
    unfolding cleanDomain_def using sl
    by (auto simp: toLowerCase_append strip_scheme_http[OF sch] toLowerCase_slash)
       (simp add: toLowerCase_def)
  also have "\<dots> = toLowerCase h"
    using sl h by (auto simp: strip_slash_snoc strip_slash_def toLowerCase_def last_map lowerChar_slash)
  finally show ?thesis .
qed

lemma cleanDomain_bare:
  assumes w: "list_all isWhiteSpace w1" "list_all isWhiteSpace w2"
    and sl: "sl = [] \<or> sl = ''/''"
    and h: "h \<noteq> []" "\<not> isWhiteSpace (hd h)" "\<not> isWhiteSpace (last h)" "last h \<noteq> CHR ''/''"
    and no: "\<not> prefix ''http://'' (toLowerCase h)" "\<not> prefix ''https://'' (toLowerCase h)"
  shows "cleanDomain (w1 @ h @ sl @ w2) = toLowerCase h"
proof -
  let ?m = "h @ sl"
  let ?x = "toLowerCase h"
  have sl_ws: "\<not> isWhiteSpace CHR ''/''" by (simp add: isWhiteSpace_def code_def)
  have hdm: "\<not> isWhiteSpace (hd ?m)" using h by simp
  have lastm: "\<not> isWhiteSpace (last ?m)" using sl h sl_ws by auto
  have x: "?x \<noteq> []" "last ?x \<noteq> CHR ''/''"
    using h by (simp_all add: toLowerCase_def last_map lowerChar_slash)
  have sx: "strip_scheme ?x = ?x" using no by (simp add: strip_scheme_def)
  have "trim (w1 @ ?m @ w2) = ?m"
    by (rule trim_around[OF w _ hdm lastm]) (simp add: h)
  then have "cleanDomain (w1 @ h @ sl @ w2) = strip_slash (strip_scheme (?x @ sl))"
    unfolding cleanDomain_def using sl
    by (auto simp: toLowerCase_append toLowerCase_slash) (simp add: toLowerCase_def)
  also have "\<dots> = ?x"
    using sl x sx by (auto simp: strip_scheme_slash[OF x] strip_slash_snoc strip_slash_def)
  finally show ?thesis .
qed

section \<open>Claims about the lookup\<close>

text \<open>
  C5. A lookup with a domain that is not empty always stores a result and sets no error.
  It issues the same requests whatever the network answers. The entry of each record type
  and of each probe depends on its own query only: there is none when that query fails or
  yields no record, and otherwise it holds the records obtained. When all thirteen
  queries fail, both mappings of the result are empty.
\<close>

theorem handleLookup_tolerates_failures:
  assumes "trim (domain s) \<noteq> []"
  shows "\<exists>res. results (handleLookup fetch s) = Some res \<and>
     error (handleLookup fetch s) = [] \<and>
     requests (handleLookup fetch s) =
       requests s @ lookup_requests (provider s) (cleanDomain (domain s)) \<and>
     (\<forall>ty\<in>set RECORD_TYPES_usual.
        map_of (usual res) ty =
          (if query_fails fetch (PROVIDERS (provider s)) (cleanDomain (domain s)) ty then None
           else if obtained fetch (PROVIDERS (provider s)) (cleanDomain (domain s)) ty = [] then None
           else Some (as_stored (provider s) ty
                  (obtained fetch (PROVIDERS (provider s)) (cleanDomain (domain s)) ty)))) \<and>
     (\<forall>p\<in>set RECORD_TYPES_emailSecurity.
        map_of (emailSecurity res) (label p) =
          (if query_fails fetch (PROVIDERS (provider s))
                (name p @ ''.'' @ cleanDomain (domain s)) (type p) then None
           else if obtained fetch (PROVIDERS (provider s))
                (name p @ ''.'' @ cleanDomain (domain s)) (type p) = [] then None
           else Some (obtained fetch (PROVIDERS (provider s))
                  (name p @ ''.'' @ cleanDomain (domain s)) (type p)))) \<and>
     ((\<forall>ty\<in>set RECORD_TYPES_usual.
          query_fails fetch (PROVIDERS (provider s)) (cleanDomain (domain s)) ty) \<and>
      (\<forall>p\<in>set RECORD_TYPES_emailSecurity.
          query_fails fetch (PROVIDERS (provider s))
            (name p @ ''.'' @ cleanDomain (domain s)) (type p))
      \<longrightarrow> usual res = [] \<and> emailSecurity res = [])"
proof -
  let ?res = "expected_result fetch (provider s) (cleanDomain (domain s))"
  note v = handleLookup_valid[OF assms, of fetch]
  have "results (handleLookup fetch s) = Some ?res"
    and "error (handleLookup fetch s) = []"
    and "requests (handleLookup fetch s) =
           requests s @ lookup_requests (provider s) (cleanDomain (domain s))"
    unfolding v by simp_all
  moreover have "\<forall>ty\<in>set RECORD_TYPES_usual.
        map_of (usual ?res) ty =
          (if query_fails fetch (PROVIDERS (provider s)) (cleanDomain (domain s)) ty then None
           else if obtained fetch (PROVIDERS (provider s)) (cleanDomain (domain s)) ty = [] then None
           else Some (as_stored (provider s) ty
                  (obtained fetch (PROVIDERS (provider s)) (cleanDomain (domain s)) ty)))"
    by (simp add: expected_result_def map_of_usual_entries obtained_Nil_if_fails)
  moreover have "\<forall>p\<in>set RECORD_TYPES_emailSecurity.
        map_of (emailSecurity ?res) (label p) =
          (if query_fails fetch (PROVIDERS (provider s))
                (name p @ ''.'' @ cleanDomain (domain s)) (type p) then None
           else if obtained fetch (PROVIDERS (provider s))
                (name p @ ''.'' @ cleanDomain (domain s)) (type p) = [] then None
           else Some (obtained fetch (PROVIDERS (provider s))
                  (name p @ ''.'' @ cleanDomain (domain s)) (type p)))"
    by (simp add: expected_result_def map_of_emailSecurity_label obtained_Nil_if_fails
        del: map_of_append)
  moreover have "(\<forall>ty\<in>set RECORD_TYPES_usual.
          query_fails fetch (PROVIDERS (provider s)) (cleanDomain (domain s)) ty) \<and>
      (\<forall>p\<in>set RECORD_TYPES_emailSecurity.
          query_fails fetch (PROVIDERS (provider s))
            (name p @ ''.'' @ cleanDomain (domain s)) (type p))
      \<longrightarrow> usual ?res = [] \<and> emailSecurity ?res = []"
    by (simp add: expected_result_def usual_entries_all_fail probe_entries_all_fail
        spf_entries_Nil)
  ultimately show ?thesis by blast
qed

text \<open>Every request is rejected by the network: the result is stored, with no entry.\<close>

theorem handleLookup_tolerates_failures_witness:
  "trim (domain example_com) \<noteq> [] \<and>
   list_all (\<lambda>ty. query_fails all_rejected (PROVIDERS (provider example_com))
                    (cleanDomain (domain example_com)) ty) RECORD_TYPES_usual \<and>
   list_all (\<lambda>p. query_fails all_rejected (PROVIDERS (provider example_com))
                   (name p @ ''.'' @ cleanDomain (domain example_com)) (type p))
     RECORD_TYPES_emailSecurity \<and>
   (\<exists>res. results (handleLookup all_rejected example_com) = Some res \<and>
          usual res = [] \<and> emailSecurity res = []) \<and>
   error (handleLookup all_rejected example_com) = [] \<and>
   length (requests (handleLookup all_rejected example_com)) = 13"
proof -
  have h: "trim (domain example_com) \<noteq> []"
    by code_simp
  have f1: "list_all (\<lambda>ty. query_fails all_rejected (PROVIDERS (provider example_com))
                    (cleanDomain (domain example_com)) ty) RECORD_TYPES_usual"
    by code_simp
  have f2: "list_all (\<lambda>p. query_fails all_rejected (PROVIDERS (provider example_com))
                   (name p @ ''.'' @ cleanDomain (domain example_com)) (type p))
     RECORD_TYPES_emailSecurity"
    by code_simp
  have n: "length (requests example_com @
             lookup_requests (provider example_com) (cleanDomain (domain example_com))) = 13"
    by code_simp
  from handleLookup_tolerates_failures[OF h, of all_rejected]
    f1[unfolded list_all_iff] f2[unfolded list_all_iff] h n
  have "(\<exists>res. results (handleLookup all_rejected example_com) = Some res \<and>
          usual res = [] \<and> emailSecurity res = []) \<and>
   error (handleLookup all_rejected example_com) = [] \<and>
   length (requests (handleLookup all_rejected example_com)) = 13"
    by auto
  with h f1 f2 show ?thesis by (intro conjI) simp_all
qed

text \<open>
  C6. In the result of a lookup, a record type is a key of the standard mapping exactly
  when its query obtained at least one record, and a label is a key of the email-security
  mapping exactly when it is \<open>SPF (TXT)\<close> and some TXT record obtained for the domain
  mentions \<open>v=spf1\<close>, or it is the label of a probe whose query obtained at least one
  record. A query that fails and a query answered with no record obtain nothing. No key is
  bound to an empty sequence.
\<close>

theorem handleLookup_entries_nonempty:
  assumes "trim (domain s) \<noteq> []"
  shows "\<exists>res. results (handleLookup fetch s) = Some res \<and>
     (\<forall>k. k \<in> fst ` set (usual res) \<longleftrightarrow>
        k \<in> set RECORD_TYPES_usual \<and>
        obtained fetch (PROVIDERS (provider s)) (cleanDomain (domain s)) k \<noteq> []) \<and>
     (\<forall>k. k \<in> fst ` set (emailSecurity res) \<longleftrightarrow>
        (k = ''SPF (TXT)'' \<and>
         (\<exists>r\<in>set (obtained fetch (PROVIDERS (provider s)) (cleanDomain (domain s)) ''TXT'').
            mentions_spf1 (data r))) \<or>
        (\<exists>p\<in>set RECORD_TYPES_emailSecurity. k = label p \<and>
           obtained fetch (PROVIDERS (provider s))
             (name p @ ''.'' @ cleanDomain (domain s)) (type p) \<noteq> [])) \<and>
     (\<forall>(k, v)\<in>set (usual res) \<union> set (emailSecurity res). v \<noteq> [])"
proof -
  let ?prov = "provider s" and ?clean = "cleanDomain (domain s)"
  let ?res = "expected_result fetch ?prov ?clean"
  have r: "results (handleLookup fetch s) = Some ?res"
    unfolding handleLookup_valid[OF assms, of fetch] by simp
  have u: "\<forall>k. k \<in> fst ` set (usual ?res) \<longleftrightarrow>
        k \<in> set RECORD_TYPES_usual \<and> obtained fetch (PROVIDERS ?prov) ?clean k \<noteq> []"
    by (simp add: expected_result_def keys_usual_entries)
  have spf: "(\<exists>records. map_of (usual_entries fetch ?prov ?clean) ''TXT'' = Some records \<and>
               (\<exists>r\<in>set records. mentions_spf1 (data r))) \<longleftrightarrow>
             (\<exists>r\<in>set (obtained fetch (PROVIDERS ?prov) ?clean ''TXT''). mentions_spf1 (data r))"
    by (auto simp: usual_TXT)
  have e: "\<forall>k. k \<in> fst ` set (emailSecurity ?res) \<longleftrightarrow>
        (k = ''SPF (TXT)'' \<and>
         (\<exists>r\<in>set (obtained fetch (PROVIDERS ?prov) ?clean ''TXT''). mentions_spf1 (data r))) \<or>
        (\<exists>p\<in>set RECORD_TYPES_emailSecurity. k = label p \<and>
           obtained fetch (PROVIDERS ?prov) (name p @ ''.'' @ ?clean) (type p) \<noteq> [])"
    unfolding expected_result_def
    by (simp add: image_Un keys_spf_entries keys_probe_entries spf) blast
  have v: "\<forall>(k, v)\<in>set (usual ?res) \<union> set (emailSecurity ?res). v \<noteq> []"
    unfolding expected_result_def
    by (auto dest: values_usual_entries values_spf_entries values_probe_entries)
  show ?thesis by (rule exI[of _ ?res]) (intro conjI r u e v)
qed

text \<open>
  The network answers the TXT query with two records, the MX query with an empty
  \<^verbatim>\<open>Answer\<close> array and every other query without \<^verbatim>\<open>Answer\<close>.
\<close>

theorem handleLookup_entries_nonempty_witness:
  "trim (domain example_com) \<noteq> [] \<and>
   (\<exists>res. results (handleLookup txt_fetch example_com) = Some res \<and>
      ''TXT'' \<in> fst ` set (usual res) \<and>
      ''MX'' \<notin> fst ` set (usual res) \<and>
      ''SPF (TXT)'' \<in> fst ` set (emailSecurity res) \<and>
      ''_dmarc (TXT)'' \<notin> fst ` set (emailSecurity res) \<and>
      list_all (\<lambda>(k, v). v \<noteq> []) (usual res @ emailSecurity res))"
proof -
  have h: "trim (domain example_com) \<noteq> []"
    by code_simp
  have tx: "obtained txt_fetch (PROVIDERS (provider example_com))
               (cleanDomain (domain example_com)) ''TXT'' =
       [\<lparr>rr_name = ''example.com'', rr_type = 16, TTL = 300,
          data = ''v=spf1 include:_spf.example.com ~all''\<rparr>,
        \<lparr>rr_name = ''example.com'', rr_type = 16, TTL = 300, data = ''other-txt''\<rparr>]"
    by code_simp
  have mx: "obtained txt_fetch (PROVIDERS (provider example_com))
               (cleanDomain (domain example_com)) ''MX'' = []"
    by code_simp
  have spf: "mentions_spf1 ''v=spf1 include:_spf.example.com ~all''"
    unfolding mentions_spf1_code by code_simp
  have dmarc: "\<forall>p\<in>set RECORD_TYPES_emailSecurity. ''_dmarc (TXT)'' = label p \<longrightarrow>
           obtained txt_fetch (PROVIDERS (provider example_com))
             (name p @ ''.'' @ cleanDomain (domain example_com)) (type p) = []"
    by code_simp
  have ty: "''TXT'' \<in> set RECORD_TYPES_usual"
    by code_simp
  from handleLookup_entries_nonempty[OF h, of txt_fetch] obtain res where
    all: "results (handleLookup txt_fetch example_com) = Some res \<and>
     (\<forall>k. k \<in> fst ` set (usual res) \<longleftrightarrow>
        k \<in> set RECORD_TYPES_usual \<and>
        obtained txt_fetch (PROVIDERS (provider example_com))
          (cleanDomain (domain example_com)) k \<noteq> []) \<and>
     (\<forall>k. k \<in> fst ` set (emailSecurity res) \<longleftrightarrow>
        (k = ''SPF (TXT)'' \<and>
         (\<exists>r\<in>set (obtained txt_fetch (PROVIDERS (provider example_com))
                     (cleanDomain (domain example_com)) ''TXT'').
            mentions_spf1 (data r))) \<or>
        (\<exists>p\<in>set RECORD_TYPES_emailSecurity. k = label p \<and>
           obtained txt_fetch (PROVIDERS (provider example_com))
             (name p @ ''.'' @ cleanDomain (domain example_com)) (type p) \<noteq> [])) \<and>
     (\<forall>(k, v)\<in>set (usual res) \<union> set (emailSecurity res). v \<noteq> [])"
    ..
  note r = all[THEN conjunct1]
  note u = all[THEN conjunct2, THEN conjunct1, rule_format]
  note e = all[THEN conjunct2, THEN conjunct2, THEN conjunct1, rule_format]
  note v = all[THEN conjunct2, THEN conjunct2, THEN conjunct2]
  have "''TXT'' \<in> fst ` set (usual res)"
    unfolding u using ty tx by simp
  moreover have "''MX'' \<notin> fst ` set (usual res)"
    unfolding u using mx by simp
  moreover have "''SPF (TXT)'' \<in> fst ` set (emailSecurity res)"
    unfolding e tx using spf by simp
  moreover have "''_dmarc (TXT)'' \<notin> fst ` set (emailSecurity res)"
    unfolding e using dmarc by auto
  moreover have "list_all (\<lambda>(k, v). v \<noteq> []) (usual res @ emailSecurity res)"
    using v by (auto simp: list_all_iff)
  ultimately show ?thesis using h r by (intro conjI exI[of _ res])
qed

text \<open>
  C7. The entry \<open>SPF (TXT)\<close> of the email-security mapping is the standard TXT entry of
  the same result, filtered for the records whose data contains \<open>v=spf1\<close> in whatever
  case: it is absent when there is no TXT entry or no record matches, and otherwise it
  holds exactly the matching records, in their order. The TXT entry holds the records
  obtained for the domain itself.
\<close>

theorem handleLookup_spf_from_txt:
  assumes "trim (domain s) \<noteq> []"
  shows "\<exists>res. results (handleLookup fetch s) = Some res \<and>
     map_of (emailSecurity res) ''SPF (TXT)'' =
       (case map_of (usual res) ''TXT'' of
          None \<Rightarrow> None
        | Some records \<Rightarrow>
            (if filter (\<lambda>r. mentions_spf1 (data r)) records = [] then None
             else Some (filter (\<lambda>r. mentions_spf1 (data r)) records))) \<and>
     map_of (usual res) ''TXT'' =
       (if obtained fetch (PROVIDERS (provider s)) (cleanDomain (domain s)) ''TXT'' = [] then None
        else Some (obtained fetch (PROVIDERS (provider s)) (cleanDomain (domain s)) ''TXT''))"
proof -
  let ?res = "expected_result fetch (provider s) (cleanDomain (domain s))"
  have r: "results (handleLookup fetch s) = Some ?res"
    unfolding handleLookup_valid[OF assms, of fetch] by simp
  have "map_of (emailSecurity ?res) ''SPF (TXT)'' =
       (case map_of (usual ?res) ''TXT'' of
          None \<Rightarrow> None
        | Some records \<Rightarrow>
            (if filter (\<lambda>r. mentions_spf1 (data r)) records = [] then None
             else Some (filter (\<lambda>r. mentions_spf1 (data r)) records)))"
    by (simp add: expected_result_def map_add_def map_of_probe_entries_spf map_of_spf_entries
        split: option.splits)
  moreover have "map_of (usual ?res) ''TXT'' =
       (if obtained fetch (PROVIDERS (provider s)) (cleanDomain (domain s)) ''TXT'' = [] then None
        else Some (obtained fetch (PROVIDERS (provider s)) (cleanDomain (domain s)) ''TXT''))"
    by (simp add: expected_result_def usual_TXT)
  ultimately show ?thesis using r by blast
qed

text \<open>
  The TXT query returns \<^verbatim>\<open>v=spf1 include:_spf.example.com ~all\<close> and \<^verbatim>\<open>other-txt\<close>: the
  SPF entry holds the first record only.
\<close>

theorem handleLookup_spf_from_txt_witness:
  "trim (domain example_com) \<noteq> [] \<and>
   (\<exists>res. results (handleLookup txt_fetch example_com) = Some res \<and>
      map (data) (the (map_of (usual res) ''TXT'')) =
        [''v=spf1 include:_spf.example.com ~all'', ''other-txt''] \<and>
      map_of (emailSecurity res) ''SPF (TXT)'' =
        Some [\<lparr>rr_name = ''example.com'', rr_type = 16, TTL = 300,
               data = ''v=spf1 include:_spf.example.com ~all''\<rparr>])"
proof -
  have h: "trim (domain example_com) \<noteq> []"
    by code_simp
  have tx: "obtained txt_fetch (PROVIDERS (provider example_com))
               (cleanDomain (domain example_com)) ''TXT'' =
       [\<lparr>rr_name = ''example.com'', rr_type = 16, TTL = 300,
          data = ''v=spf1 include:_spf.example.com ~all''\<rparr>,
        \<lparr>rr_name = ''example.com'', rr_type = 16, TTL = 300, data = ''other-txt''\<rparr>]"
    by code_simp
  have spf: "mentions_spf1 ''v=spf1 include:_spf.example.com ~all''"
    unfolding mentions_spf1_code by code_simp
  have other: "\<not> mentions_spf1 ''other-txt''"
    unfolding mentions_spf1_code by code_simp
  from handleLookup_spf_from_txt[OF h, of txt_fetch] obtain res where
    "results (handleLookup txt_fetch example_com) = Some res"
    "map_of (emailSecurity res) ''SPF (TXT)'' =
       (case map_of (usual res) ''TXT'' of
          None \<Rightarrow> None
        | Some records \<Rightarrow>
            (if filter (\<lambda>r. mentions_spf1 (data r)) records = [] then None
             else Some (filter (\<lambda>r. mentions_spf1 (data r)) records)))"
    "map_of (usual res) ''TXT'' =
       (if obtained txt_fetch (PROVIDERS (provider example_com))
             (cleanDomain (domain example_com)) ''TXT'' = [] then None
        else Some (obtained txt_fetch (PROVIDERS (provider example_com))
             (cleanDomain (domain example_com)) ''TXT''))"
    by blast
  then show ?thesis
    using h by (intro conjI exI[of _ res]) (simp_all add: tx spf other)
qed

text \<open>
  C8. When the domain is empty after trimming, \<open>handleLookup\<close> sets the error message
  \<^verbatim>\<open>Please enter a domain name\<close> and does nothing else: no request is issued and the
  other variables keep their values.
\<close>

theorem handleLookup_empty_domain:
  assumes "trim (domain s) = []"
  shows "handleLookup fetch s = s\<lparr>error := ''Please enter a domain name''\<rparr> \<and>
         error (handleLookup fetch s) = ''Please enter a domain name'' \<and>
         requests (handleLookup fetch s) = requests s \<and>
         results (handleLookup fetch s) = results s"
  using assms by (simp add: handleLookup_def)

text \<open>The empty domain, and a domain of white space, on a network that would answer.\<close>

theorem handleLookup_empty_domain_witness:
  "trim (domain initial) = [] \<and> domain initial = [] \<and>
   error (handleLookup txt_fetch initial) = ''Please enter a domain name'' \<and>
   requests (handleLookup txt_fetch initial) = [] \<and>
   results (handleLookup txt_fetch initial) = None \<and>
   trim (domain (initial\<lparr>domain := ''   ''\<rparr>)) = [] \<and>
   requests (handleLookup txt_fetch (initial\<lparr>domain := ''   ''\<rparr>)) = []"
proof -
  have h1: "trim (domain initial) = []" by code_simp
  have h2: "trim (domain (initial\<lparr>domain := ''   ''\<rparr>)) = []" by code_simp
  from handleLookup_empty_domain[OF h1, of txt_fetch]
    handleLookup_empty_domain[OF h2, of txt_fetch] h1 h2
  show ?thesis by (simp add: initial_def)
qed

text \<open>
  C10. With a provider id other than \<open>google\<close> and \<open>cloudflare\<close> and a domain that is not
  empty, \<open>handleLookup\<close> sets no error and stores a result whose two mappings are empty.
  No request reaches the network: each of the thirteen queries fails when its URL is
  built, inside the handler of its own query, which logs the TypeError.
\<close>

theorem handleLookup_unknown_provider:
  assumes "provider s \<noteq> ''google''" "provider s \<noteq> ''cloudflare''" "trim (domain s) \<noteq> []"
  shows "error (handleLookup fetch s) = [] \<and>
         loading (handleLookup fetch s) = False \<and>
         results (handleLookup fetch s) =
           Some \<lparr>res_domain = cleanDomain (domain s), res_provider = ''1.1.1.1'',
                 usual = [], emailSecurity = []\<rparr> \<and>
         requests (handleLookup fetch s) = requests s \<and>
         console (handleLookup fetch s) =
           console s @
           map (\<lambda>ty. (''Error querying '' @ ty @ '':'', TypeError)) RECORD_TYPES_usual @
           map (\<lambda>p. (''Error querying '' @ label p @ '':'', TypeError)) RECORD_TYPES_emailSecurity"
proof -
  from assms(1,2) have p: "PROVIDERS (provider s) = None"
    by (simp add: PROVIDERS_def)
  show ?thesis
    unfolding handleLookup_valid[OF assms(3), of fetch]
    using assms(1)
    by (simp add: expected_result_def usual_entries_no_endpoint[OF p]
        probe_entries_no_endpoint[OF p] lookup_requests_no_endpoint[OF p]
        lookup_diagnostics_no_endpoint[OF p] spf_entries_Nil)
qed

text \<open>The provider id \<open>quad9\<close>, on a network that would answer.\<close>

theorem handleLookup_unknown_provider_witness:
  "provider (example_com\<lparr>provider := ''quad9''\<rparr>) \<noteq> ''google'' \<and>
   provider (example_com\<lparr>provider := ''quad9''\<rparr>) \<noteq> ''cloudflare'' \<and>
   trim (domain (example_com\<lparr>provider := ''quad9''\<rparr>)) \<noteq> [] \<and>
   error (handleLookup txt_fetch (example_com\<lparr>provider := ''quad9''\<rparr>)) = [] \<and>
   results (handleLookup txt_fetch (example_com\<lparr>provider := ''quad9''\<rparr>)) =
     Some \<lparr>res_domain = ''example.com'', res_provider = ''1.1.1.1'',
           usual = [], emailSecurity = []\<rparr> \<and>
   requests (handleLookup txt_fetch (example_com\<lparr>provider := ''quad9''\<rparr>)) = [] \<and>
   length (console (handleLookup txt_fetch (example_com\<lparr>provider := ''quad9''\<rparr>))) = 13"
proof -
  let ?s = "example_com\<lparr>provider := ''quad9''\<rparr>"
  have h1: "provider ?s \<noteq> ''google''" by code_simp
  have h2: "provider ?s \<noteq> ''cloudflare''" by code_simp
  have h3: "trim (domain ?s) \<noteq> []" by code_simp
  have c: "cleanDomain (domain example_com) = ''example.com''" by code_simp
  have r: "requests example_com = []" "console example_com = []" by code_simp+
  have n: "length RECORD_TYPES_usual + length RECORD_TYPES_emailSecurity = 13" by code_simp
  from handleLookup_unknown_provider[OF h1 h2 h3, of txt_fetch] h1 h2 h3 n
  show ?thesis by (simp add: c r)
qed

text \<open>
  C9 (amended). \<open>cleanDomain\<close> removes the white space around its argument, puts it in
  lower case, removes a leading \<open>http://\<close> or \<open>https://\<close> and removes one slash at the
  end, and no more than one. For every domain \<open>d\<close> that is not empty, does not end in white space or in a slash
  and has no sharp s, a lookup of \<open>d\<close> in upper case, with two spaces before it and a slash
  and a space after it, normalises to the same string and leaves the same results, requests
  and diagnostics as a lookup of \<open>d\<close>. The normalised string is the domain field of the
  result and the subject of every query, alone or after the name of a probe.
\<close>

theorem handleLookup_padded_domain:
  assumes "toUpperCase d = Some u" "sharp_s \<notin> set d"
    and "d \<noteq> []" "\<not> isWhiteSpace (last d)" "last d \<noteq> CHR ''/''"
  shows "cleanDomain (padded u) = cleanDomain d \<and>
         handleLookup fetch (s\<lparr>domain := padded u\<rparr>) =
           (handleLookup fetch (s\<lparr>domain := d\<rparr>))\<lparr>domain := padded u\<rparr> \<and>
         results (handleLookup fetch (s\<lparr>domain := padded u\<rparr>)) =
           results (handleLookup fetch (s\<lparr>domain := d\<rparr>)) \<and>
         (\<exists>res. results (handleLookup fetch (s\<lparr>domain := d\<rparr>)) = Some res \<and>
                res_domain res = cleanDomain d) \<and>
         requests (handleLookup fetch (s\<lparr>domain := d\<rparr>)) =
           requests s @ lookup_requests (provider s) (cleanDomain d) \<and>
         (\<forall>rq\<in>set (lookup_requests (provider s) (cleanDomain d)).
            qname rq = cleanDomain d \<or>
            (\<exists>p\<in>set RECORD_TYPES_emailSecurity. qname rq = name p @ ''.'' @ cleanDomain d)) \<and>
         (\<forall>w1 w2 sch h sl.
            list_all isWhiteSpace w1 \<and> list_all isWhiteSpace w2 \<and>
            (toLowerCase sch = ''http://'' \<or> toLowerCase sch = ''https://'') \<and>
            (sl = [] \<or> sl = ''/'') \<and>
            (sl = ''/'' \<or> h = [] \<or> \<not> isWhiteSpace (last h) \<and> last h \<noteq> CHR ''/'') \<longrightarrow>
            cleanDomain (w1 @ sch @ h @ sl @ w2) = toLowerCase h) \<and>
         (\<forall>w1 w2 h sl.
            list_all isWhiteSpace w1 \<and> list_all isWhiteSpace w2 \<and>
            (sl = [] \<or> sl = ''/'') \<and>
            h \<noteq> [] \<and> \<not> isWhiteSpace (hd h) \<and> \<not> isWhiteSpace (last h) \<and> last h \<noteq> CHR ''/'' \<and>
            \<not> prefix ''http://'' (toLowerCase h) \<and> \<not> prefix ''https://'' (toLowerCase h) \<longrightarrow>
            cleanDomain (w1 @ h @ sl @ w2) = toLowerCase h)"
proof -
  note rc = toUpperCase_recased[OF assms(1,2)]
  note c = cleanDomain_padded[OF rc assms(3-5)]
  have v1: "trim (domain (s\<lparr>domain := padded u\<rparr>)) \<noteq> []" using c(2) by simp
  have v2: "trim (domain (s\<lparr>domain := d\<rparr>)) \<noteq> []" using c(3) by simp
  note l1 = handleLookup_valid[OF v1, of fetch]
  note l2 = handleLookup_valid[OF v2, of fetch]
  have 1: "handleLookup fetch (s\<lparr>domain := padded u\<rparr>) =
           (handleLookup fetch (s\<lparr>domain := d\<rparr>))\<lparr>domain := padded u\<rparr>"
    unfolding l1 l2 by (simp add: c(1))
  have 2: "results (handleLookup fetch (s\<lparr>domain := padded u\<rparr>)) =
           results (handleLookup fetch (s\<lparr>domain := d\<rparr>))"
    unfolding l1 l2 by (simp add: c(1))
  have 3: "\<exists>res. results (handleLookup fetch (s\<lparr>domain := d\<rparr>)) = Some res \<and>
                res_domain res = cleanDomain d"
    unfolding l2 by (simp add: expected_result_def)
  have 4: "requests (handleLookup fetch (s\<lparr>domain := d\<rparr>)) =
           requests s @ lookup_requests (provider s) (cleanDomain d)"
    unfolding l2 by simp
  have 5: "\<forall>rq\<in>set (lookup_requests (provider s) (cleanDomain d)).
            qname rq = cleanDomain d \<or>
            (\<exists>p\<in>set RECORD_TYPES_emailSecurity. qname rq = name p @ ''.'' @ cleanDomain d)"
    using qname_lookup_requests by blast
  have 6: "\<forall>w1 w2 sch h sl.
            list_all isWhiteSpace w1 \<and> list_all isWhiteSpace w2 \<and>
            (toLowerCase sch = ''http://'' \<or> toLowerCase sch = ''https://'') \<and>
            (sl = [] \<or> sl = ''/'') \<and>
            (sl = ''/'' \<or> h = [] \<or> \<not> isWhiteSpace (last h) \<and> last h \<noteq> CHR ''/'') \<longrightarrow>
            cleanDomain (w1 @ sch @ h @ sl @ w2) = toLowerCase h"
    by (intro allI impI cleanDomain_scheme) simp_all
  have 7: "\<forall>w1 w2 h sl.
            list_all isWhiteSpace w1 \<and> list_all isWhiteSpace w2 \<and>
            (sl = [] \<or> sl = ''/'') \<and>
            h \<noteq> [] \<and> \<not> isWhiteSpace (hd h) \<and> \<not> isWhiteSpace (last h) \<and> last h \<noteq> CHR ''/'' \<and>
            \<not> prefix ''http://'' (toLowerCase h) \<and> \<not> prefix ''https://'' (toLowerCase h) \<longrightarrow>
            cleanDomain (w1 @ h @ sl @ w2) = toLowerCase h"
    by (intro allI impI cleanDomain_bare) simp_all
  show ?thesis by (intro conjI c(1) 1 2 3 4 5 6 7)
qed

text \<open>
  The domain \<open>muenchen\<close>, which has a u with diaeresis, and the pieces of
  \<^verbatim>\<open>HTTP://Example.COM/\<close> between two spaces and a space, with and without the scheme.
\<close>

theorem handleLookup_padded_domain_witness:
  "toUpperCase muenchen = Some MUENCHEN \<and>
   sharp_s \<notin> set muenchen \<and>
   muenchen \<noteq> [] \<and> \<not> isWhiteSpace (last muenchen) \<and> last muenchen \<noteq> CHR ''/'' \<and>
   cleanDomain muenchen = ''m'' @ [CHR 0xFC] @ ''nchen.de'' \<and>
   cleanDomain (padded MUENCHEN) = ''m'' @ [CHR 0xFC] @ ''nchen.de'' \<and>
   results (handleLookup txt_fetch (initial\<lparr>domain := padded MUENCHEN\<rparr>)) =
     results (handleLookup txt_fetch (initial\<lparr>domain := muenchen\<rparr>)) \<and>
   cleanDomain (''  '' @ ''HTTP://'' @ ''Example.COM'' @ ''/'' @ '' '') = ''example.com'' \<and>
   cleanDomain (''  '' @ ''Example.COM'' @ ''/'' @ '' '') = ''example.com''"
proof -
  have h: "toUpperCase muenchen = Some MUENCHEN" "sharp_s \<notin> set muenchen"
    "muenchen \<noteq> []" "\<not> isWhiteSpace (last muenchen)" "last muenchen \<noteq> CHR ''/''"
    by code_simp+
  have c: "cleanDomain muenchen = ''m'' @ [CHR 0xFC] @ ''nchen.de''"
    by code_simp
  note t = handleLookup_padded_domain[OF h, of txt_fetch initial]
  note t1 = t[THEN conjunct1]
  note t3 = t[THEN conjunct2, THEN conjunct2, THEN conjunct1]
  note t7 = t[THEN conjunct2, THEN conjunct2, THEN conjunct2, THEN conjunct2, THEN conjunct2,
      THEN conjunct2, THEN conjunct1, rule_format]
  note t8 = t[THEN conjunct2, THEN conjunct2, THEN conjunct2, THEN conjunct2, THEN conjunct2,
      THEN conjunct2, THEN conjunct2, rule_format]
  have a: "cleanDomain (''  '' @ ''HTTP://'' @ ''Example.COM'' @ ''/'' @ '' '') =
             toLowerCase ''Example.COM''"
    by (rule t7) code_simp
  have b: "cleanDomain (''  '' @ ''Example.COM'' @ ''/'' @ '' '') = toLowerCase ''Example.COM''"
    by (rule t8) code_simp
  have l: "toLowerCase ''Example.COM'' = ''example.com''"
    by code_simp
  from h c t1 t3 a[unfolded l] b[unfolded l] show ?thesis
    by (intro conjI) simp_all
qed

text \<open>
  Four domains for which the two lookups differ, on a network that knows an A record of
  the domain. \<^verbatim>\<open>example.com/\<close>, as copied from an address bar, is looked up as
  \<^verbatim>\<open>example.com\<close> alone and as \<^verbatim>\<open>example.com/\<close> when padded. The empty domain is
  refused alone and looked up, with thirteen requests, when padded. \<^verbatim>\<open>example.com\<close> with
  a space after it keeps the space when padded. The upper case of the sharp s is
  \<open>SS\<close>, which the lower-casing turns into \<open>ss\<close>.
\<close>

theorem handleLookup_padded_domain_counterexample:
  "toUpperCase ''example.com/'' = Some ''EXAMPLE.COM/'' \<and>
   cleanDomain ''example.com/'' = ''example.com'' \<and>
   cleanDomain (padded ''EXAMPLE.COM/'') = ''example.com/'' \<and>
   map fst (usual (the (results
     (handleLookup (a_fetch ''example.com'') (initial\<lparr>domain := ''example.com/''\<rparr>))))) = [''A''] \<and>
   usual (the (results
     (handleLookup (a_fetch ''example.com'') (initial\<lparr>domain := padded ''EXAMPLE.COM/''\<rparr>)))) = [] \<and>
   results (handleLookup (a_fetch ''example.com'') (initial\<lparr>domain := padded ''EXAMPLE.COM/''\<rparr>)) \<noteq>
   results (handleLookup (a_fetch ''example.com'') (initial\<lparr>domain := ''example.com/''\<rparr>)) \<and>
   toUpperCase [] = Some [] \<and>
   results (handleLookup (a_fetch []) (initial\<lparr>domain := []\<rparr>)) = None \<and>
   requests (handleLookup (a_fetch []) (initial\<lparr>domain := []\<rparr>)) = [] \<and>
   map fst (usual (the (results (handleLookup (a_fetch []) (initial\<lparr>domain := padded []\<rparr>)))))
     = [''A''] \<and>
   length (requests (handleLookup (a_fetch []) (initial\<lparr>domain := padded []\<rparr>))) = 13 \<and>
   toUpperCase ''example.com '' = Some ''EXAMPLE.COM '' \<and>
   cleanDomain ''example.com '' = ''example.com'' \<and>
   cleanDomain (padded ''EXAMPLE.COM '') = ''example.com '' \<and>
   map fst (usual (the (results
     (handleLookup (a_fetch ''example.com'') (initial\<lparr>domain := ''example.com ''\<rparr>))))) = [''A''] \<and>
   usual (the (results
     (handleLookup (a_fetch ''example.com'') (initial\<lparr>domain := padded ''EXAMPLE.COM ''\<rparr>)))) = [] \<and>
   toUpperCase strasse = Some ''STRASSE.DE'' \<and>
   cleanDomain strasse = strasse \<and>
   cleanDomain (padded ''STRASSE.DE'') = ''strasse.de'' \<and>
   map fst (usual (the (results
     (handleLookup (a_fetch strasse) (initial\<lparr>domain := strasse\<rparr>))))) = [''A''] \<and>
   usual (the (results
     (handleLookup (a_fetch strasse) (initial\<lparr>domain := padded ''STRASSE.DE''\<rparr>)))) = []"
  by code_simp

end
